theory Spec2Isabelle
  imports Main "HOL-Library.Word" "HOL-Library.AList"
begin

section \<open>Text, bytes and exceptions\<close>

text \<open>
  The discovery module \<^verbatim>\<open>denonavr/ssdp.py\<close> works on Python \<^verbatim>\<open>str\<close> values, which are
  sequences of Unicode code points, and on \<^verbatim>\<open>bytes\<close>. A code point is a natural
  number, a byte is an 8-bit word. \<open>str_of\<close> turns an ASCII literal of the source into the
  code points it denotes.
\<close>

type_synonym str = "nat list"
type_synonym bytes = "8 word list"

definition str_of :: "string \<Rightarrow> str" where
  "str_of s = map of_char s"

text \<open>
  The exceptions the module raises, catches or lets through. \<open>ConnectTimeout\<close> is the
  \<^verbatim>\<open>requests\<close> exception of that name, \<open>RequestException\<close> stands for every other
  exception of the \<^verbatim>\<open>requests\<close> hierarchy, \<open>OSError\<close> for a socket error other
  than \<^verbatim>\<open>socket.timeout\<close>.
\<close>

datatype exn =
    ConnectTimeout
  | RequestException
  | AttributeError
  | ValueError
  | ParseError
  | OSError
  | UnicodeEncodeError
  | UnicodeDecodeError

text \<open>\<^verbatim>\<open>ConnectTimeout\<close> is a subclass of \<^verbatim>\<open>RequestException\<close>.\<close>

fun is_RequestException :: "exn \<Rightarrow> bool" where
  "is_RequestException ConnectTimeout = True"
| "is_RequestException RequestException = True"
| "is_RequestException _ = False"

subsection \<open>The UTF-8 codec\<close>

text \<open>
  \<^verbatim>\<open>s.encode('utf-8')\<close>: one to four bytes for each code point; a surrogate code point
  (which a Python \<^verbatim>\<open>str\<close> may hold) raises \<^verbatim>\<open>UnicodeEncodeError\<close>. A value from
  \<open>0x110000\<close> on is not a code point of any \<^verbatim>\<open>str\<close>; the model raises there too.
\<close>

definition encode_cp :: "nat \<Rightarrow> exn + bytes" where
  "encode_cp c =
     (if c < 0x80 then Inr [of_nat c]
      else if c < 0x800 then Inr [of_nat (0xC0 + c div 64), of_nat (0x80 + c mod 64)]
      else if 0xD800 \<le> c \<and> c < 0xE000 then Inl UnicodeEncodeError
      else if c < 0x10000 then
        Inr [of_nat (0xE0 + c div 4096), of_nat (0x80 + (c div 64) mod 64),
             of_nat (0x80 + c mod 64)]
      else if c < 0x110000 then
        Inr [of_nat (0xF0 + c div 262144), of_nat (0x80 + (c div 4096) mod 64),
             of_nat (0x80 + (c div 64) mod 64), of_nat (0x80 + c mod 64)]
      else Inl UnicodeEncodeError)"

fun utf8_encode :: "str \<Rightarrow> exn + bytes" where
  "utf8_encode [] = Inr []"
| "utf8_encode (c # cs) =
     (case encode_cp c of
        Inl e \<Rightarrow> Inl e
      | Inr bs \<Rightarrow> (case utf8_encode cs of Inl e \<Rightarrow> Inl e | Inr rest \<Rightarrow> Inr (bs @ rest)))"

text \<open>
  \<^verbatim>\<open>b.decode("utf-8")\<close>, strict: the well-formed byte sequences of the Unicode
  standard decode to their code point, anything else (a stray continuation byte, an
  overlong form, an encoded surrogate, a value past \<open>0x10FFFF\<close>, a truncated sequence)
  raises \<^verbatim>\<open>UnicodeDecodeError\<close>.
\<close>

definition cont :: "8 word \<Rightarrow> bool" where
  "cont b = (0x80 \<le> unat b \<and> unat b \<le> 0xBF)"

definition low6 :: "8 word \<Rightarrow> nat" where
  "low6 b = unat b mod 64"

fun utf8_decode :: "bytes \<Rightarrow> exn + str" where
  "utf8_decode [] = Inr []"
| "utf8_decode (b0 # bs) =
     (let n = unat b0 in
      if n < 0x80 then
        (case utf8_decode bs of Inl e \<Rightarrow> Inl e | Inr cs \<Rightarrow> Inr (n # cs))
      else if 0xC2 \<le> n \<and> n \<le> 0xDF then
        (case bs of
           b1 # r \<Rightarrow>
             if cont b1 then
               (case utf8_decode r of Inl e \<Rightarrow> Inl e
                | Inr cs \<Rightarrow> Inr (((n mod 32) * 64 + low6 b1) # cs))
             else Inl UnicodeDecodeError
         | _ \<Rightarrow> Inl UnicodeDecodeError)
      else if 0xE0 \<le> n \<and> n \<le> 0xEF then
        (case bs of
           b1 # b2 # r \<Rightarrow>
             if cont b1 \<and> cont b2 \<and> (if n = 0xE0 then 0xA0 \<le> unat b1 else True)
                \<and> (if n = 0xED then unat b1 \<le> 0x9F else True) then
               (case utf8_decode r of Inl e \<Rightarrow> Inl e
                | Inr cs \<Rightarrow> Inr (((n mod 16) * 4096 + low6 b1 * 64 + low6 b2) # cs))
             else Inl UnicodeDecodeError
         | _ \<Rightarrow> Inl UnicodeDecodeError)
      else if 0xF0 \<le> n \<and> n \<le> 0xF4 then
        (case bs of
           b1 # b2 # b3 # r \<Rightarrow>
             if cont b1 \<and> cont b2 \<and> cont b3
                \<and> (if n = 0xF0 then 0x90 \<le> unat b1 else True)
                \<and> (if n = 0xF4 then unat b1 \<le> 0x8F else True) then
               (case utf8_decode r of Inl e \<Rightarrow> Inl e
                | Inr cs \<Rightarrow>
                    Inr (((n mod 8) * 262144 + low6 b1 * 4096 + low6 b2 * 64 + low6 b3) # cs))
             else Inl UnicodeDecodeError
         | _ \<Rightarrow> Inl UnicodeDecodeError)
      else Inl UnicodeDecodeError)"

subsection \<open>String formatting\<close>

text \<open>
  \<^verbatim>\<open>'{:d}'.format(i)\<close> and \<^verbatim>\<open>'{}'.format(i)\<close> for an integer: the decimal digits,
  with a minus sign for a negative number.
\<close>

fun digits :: "nat \<Rightarrow> str" where
  "digits n = (if n < 10 then [48 + n] else digits (n div 10) @ [48 + n mod 10])"

declare digits.simps [simp del]

definition format_d :: "int \<Rightarrow> str" where
  "format_d i = (if i < 0 then 45 # digits (nat (- i)) else digits (nat i))"

text \<open>\<^verbatim>\<open>sep.join(xs)\<close>.\<close>

fun join :: "str \<Rightarrow> str list \<Rightarrow> str" where
  "join sep [] = []"
| "join sep [x] = x"
| "join sep (x # y # ys) = x @ sep @ join sep (y # ys)"

section \<open>Constants of the module\<close>

definition SSDP_ADDR :: str where
  "SSDP_ADDR = str_of ''239.255.255.250''"

definition SSDP_PORT :: int where
  "SSDP_PORT = 1900"

definition SSDP_MX :: int where
  "SSDP_MX = 2"

definition SSDP_TARGET :: "str \<times> int" where
  "SSDP_TARGET = (SSDP_ADDR, SSDP_PORT)"

definition SSDP_ST_1 :: str where
  "SSDP_ST_1 = str_of ''ssdp:all''"

definition SSDP_ST_2 :: str where
  "SSDP_ST_2 = str_of ''upnp:rootdevice''"

definition SSDP_ST_3 :: str where
  "SSDP_ST_3 = str_of ''urn:schemas-upnp-org:device:MediaRenderer:1''"

definition SSDP_ST_LIST :: "str list" where
  "SSDP_ST_LIST = [SSDP_ST_1, SSDP_ST_2, SSDP_ST_3]"

definition SCPD_XMLNS :: str where
  "SCPD_XMLNS = str_of ''{urn:schemas-upnp-org:device-1-0}''"

definition SCPD_DEVICE :: str where
  "SCPD_DEVICE = SCPD_XMLNS @ str_of ''device''"

definition SCPD_DEVICETYPE :: str where
  "SCPD_DEVICETYPE = SCPD_XMLNS @ str_of ''deviceType''"

definition SCPD_MANUFACTURER :: str where
  "SCPD_MANUFACTURER = SCPD_XMLNS @ str_of ''manufacturer''"

definition SCPD_MODELNAME :: str where
  "SCPD_MODELNAME = SCPD_XMLNS @ str_of ''modelName''"

definition SCPD_SERIALNUMBER :: str where
  "SCPD_SERIALNUMBER = SCPD_XMLNS @ str_of ''serialNumber''"

definition SCPD_FRIENDLYNAME :: str where
  "SCPD_FRIENDLYNAME = SCPD_XMLNS @ str_of ''friendlyName''"

definition SCPD_PRESENTATIONURL :: str where
  "SCPD_PRESENTATIONURL = SCPD_XMLNS @ str_of ''presentationURL''"

definition DEVICETYPE_DENON :: str where
  "DEVICETYPE_DENON = str_of ''urn:schemas-upnp-org:device:MediaRenderer:1''"

definition SUPPORTED_MANUFACTURERS :: "str list" where
  "SUPPORTED_MANUFACTURERS = [str_of ''Denon'', str_of ''DENON'', str_of ''Marantz'']"

section \<open>The search request\<close>

text \<open>
  \<^verbatim>\<open>ssdp_request(ssdp_st, ssdp_mx)\<close>: seven strings joined by CR LF, the last two
  empty, encoded as UTF-8. \<open>CRLF\<close> is the separator \<^verbatim>\<open>"\r\n"\<close>.
\<close>

definition CRLF :: str where
  "CRLF = [13, 10]"

definition ssdp_request :: "str \<Rightarrow> int \<Rightarrow> exn + bytes" where
  "ssdp_request ssdp_st ssdp_mx =
     utf8_encode (join CRLF
       [str_of ''M-SEARCH * HTTP/1.1'',
        str_of ''ST: '' @ ssdp_st,
        str_of ''MX: '' @ format_d ssdp_mx,
        str_of ''MAN: \"ssdp:discover\"'',
        str_of ''HOST: '' @ fst SSDP_TARGET @ str_of '':'' @ format_d (snd SSDP_TARGET),
        [], []])"

section \<open>Regular expressions of the module\<close>

text \<open>
  The address filter is \<^verbatim>\<open>re.search("169.254.*.*", ip)\<close>. The pattern is a sequence
  of literal characters, \<^verbatim>\<open>.\<close> (any character but a newline) and \<^verbatim>\<open>.*\<close>;
  \<open>match_here\<close> matches such a sequence at the start of a string, \<open>re_search\<close> tries
  every start position from the left, as \<^verbatim>\<open>re.search\<close> does. Only whether a match
  exists is used (a match object is truthy).
\<close>

datatype rx = Lit nat | AnyChar | AnyStar

fun match_here :: "rx list \<Rightarrow> str \<Rightarrow> bool" where
  "match_here [] s = True"
| "match_here (Lit c # p) [] = False"
| "match_here (Lit c # p) (x # xs) = (x = c \<and> match_here p xs)"
| "match_here (AnyChar # p) [] = False"
| "match_here (AnyChar # p) (x # xs) = (x \<noteq> 10 \<and> match_here p xs)"
| "match_here (AnyStar # p) [] = match_here p []"
| "match_here (AnyStar # p) (x # xs) =
     (match_here p (x # xs) \<or> (x \<noteq> 10 \<and> match_here (AnyStar # p) xs))"

fun re_search :: "rx list \<Rightarrow> str \<Rightarrow> bool" where
  "re_search p [] = match_here p []"
| "re_search p (x # xs) = (match_here p (x # xs) \<or> re_search p xs)"

text \<open>The pattern \<^verbatim>\<open>"169.254.*.*"\<close>: the dots are not escaped.\<close>

definition LINK_LOCAL_PATTERN :: "rx list" where
  "LINK_LOCAL_PATTERN =
     map Lit (str_of ''169'') @ [AnyChar] @ map Lit (str_of ''254'') @ [AnyStar, AnyStar]"

text \<open>
  The LOCATION pattern is \<^verbatim>\<open>(?<=LOCATION:\s).+?(?=\r)\<close>: a match starts where the ten
  characters before it are \<^verbatim>\<open>LOCATION:\<close> and one whitespace character, takes at
  least one character, none of them a newline, and as few as possible, and ends just before
  a carriage return. \<open>is_space\<close> is \<^verbatim>\<open>\s\<close> on a \<^verbatim>\<open>str\<close>: the Unicode whitespace
  characters.
\<close>

definition is_space :: "nat \<Rightarrow> bool" where
  "is_space c =
     ((0x09 \<le> c \<and> c \<le> 0x0D) \<or> (0x1C \<le> c \<and> c \<le> 0x20) \<or> c = 0x85 \<or> c = 0xA0
      \<or> c = 0x1680 \<or> (0x2000 \<le> c \<and> c \<le> 0x200A) \<or> c = 0x2028 \<or> c = 0x2029
      \<or> c = 0x202F \<or> c = 0x205F \<or> c = 0x3000)"

definition lookbehind :: "str \<Rightarrow> bool" where
  "lookbehind seen =
     (10 \<le> length seen
      \<and> take 9 (drop (length seen - 10) seen) = str_of ''LOCATION:''
      \<and> is_space (last seen))"

text \<open>
  \<open>lazy_until_cr acc rest\<close>: \<open>acc\<close> is what \<^verbatim>\<open>.+?\<close> has taken so far; it stops at
  the first carriage return and fails at a newline or at the end of the text.
\<close>

fun lazy_until_cr :: "str \<Rightarrow> str \<Rightarrow> str option" where
  "lazy_until_cr acc [] = None"
| "lazy_until_cr acc (c # cs) =
     (if c = 13 then Some acc
      else if c = 10 then None
      else lazy_until_cr (acc @ [c]) cs)"

fun match_at :: "str \<Rightarrow> str option" where
  "match_at [] = None"
| "match_at (c # cs) = (if c = 10 then None else lazy_until_cr [c] cs)"

text \<open>
  \<open>search_location seen rest\<close>: the text is \<open>seen @ rest\<close> and the positions
  inside \<open>seen\<close> have been tried; the leftmost match wins.
\<close>

fun search_location :: "str \<Rightarrow> str \<Rightarrow> str option" where
  "search_location seen [] = None"
| "search_location seen (c # cs) =
     (case (if lookbehind seen then match_at (c # cs) else None) of
        Some m \<Rightarrow> Some m
      | None \<Rightarrow> search_location (seen @ [c]) cs)"

definition re_search_location :: "str \<Rightarrow> str option" where
  "re_search_location entry_text = search_location [] entry_text"

section \<open>The environment: adapters, the network, HTTP and the parsers\<close>

text \<open>
  \<^verbatim>\<open>ifaddr\<close> reports, for each adapter, addresses whose \<^verbatim>\<open>ip\<close> is a string (IPv4)
  or a tuple (IPv6).
\<close>

datatype ip_addr = IPv4 str | IPv6 "str \<times> nat \<times> nat"

text \<open>
  What one UDP socket meets: whether creating it, binding it or sending on it fails with
  an \<^verbatim>\<open>OSError\<close>, and what the \<open>k\<close>-th call of \<^verbatim>\<open>recvfrom\<close> does: it returns a
  datagram and its sender, raises \<^verbatim>\<open>socket.timeout\<close>, or raises another error.
\<close>

datatype recv_result = Datagram bytes "str \<times> int" | Timeout | RecvError

record sock_script =
  socket_fails :: bool
  bind_fails :: bool
  sendto_fails :: bool
  recvfrom :: "nat \<Rightarrow> recv_result"

text \<open>
  The answer of \<^verbatim>\<open>requests.get\<close>, and an element of the tree that
  \<^verbatim>\<open>ET.fromstring\<close> builds: its tag, its text (\<^verbatim>\<open>None\<close> for an empty element) and
  its children.
\<close>

record response =
  status_code :: int
  res_text :: str

datatype element = Element (tag: str) (etext: "str option") (children: "element list")

text \<open>
  The two parsers either return a value or reject their input: \<^verbatim>\<open>ET.fromstring\<close>
  raises \<^verbatim>\<open>ParseError\<close> on text that is not well-formed XML, \<^verbatim>\<open>urlparse\<close> raises
  \<^verbatim>\<open>ValueError\<close> on a URL it cannot split.
\<close>

datatype 'a parsed = Malformed | Parsed 'a

text \<open>
  The library calls are parameters of the model. \<open>net k\<close> is the script of the \<open>k\<close>-th
  socket the run creates; \<open>urlparse_hostname t\<close> is \<^verbatim>\<open>urlparse(t).hostname\<close>, which
  is \<^verbatim>\<open>None\<close> for a URL without a host; \<open>set_iter\<close> is the order in which a
  \<^verbatim>\<open>for\<close> loop visits a set of strings.
\<close>

record env =
  get_adapters :: "ip_addr list list"
  net :: "nat \<Rightarrow> sock_script"
  requests_get :: "str \<Rightarrow> exn + response"
  fromstring :: "str \<Rightarrow> element parsed"
  urlparse_hostname :: "str option \<Rightarrow> str option parsed"
  set_iter :: "str set \<Rightarrow> str list"

text \<open>
  The state a run changes: the sockets that are open, the number of sockets created so
  far, and the datagrams sent (the local address the socket is bound to, and the payload).
\<close>

record world =
  open_socks :: "nat set"
  next_sock :: nat
  sent :: "(str \<times> bytes) list"

definition close :: "nat \<Rightarrow> world \<Rightarrow> world" where
  "close s w = w\<lparr>open_socks := open_socks w - {s}\<rparr>"

type_synonym raw = "bytes \<times> (str \<times> int)"

section \<open>Local addresses\<close>

fun adapter_ips :: "ip_addr list \<Rightarrow> str list \<Rightarrow> str list" where
  "adapter_ips [] ips = ips"
| "adapter_ips (IPv4 s # rest) ips = adapter_ips rest (ips @ [s])"
| "adapter_ips (IPv6 t # rest) ips = adapter_ips rest ips"

fun adapters_ips :: "ip_addr list list \<Rightarrow> str list \<Rightarrow> str list" where
  "adapters_ips [] ips = ips"
| "adapters_ips (adapter # rest) ips = adapters_ips rest (adapter_ips adapter ips)"

definition get_local_ips :: "env \<Rightarrow> str list" where
  "get_local_ips env = adapters_ips (get_adapters env) []"

section \<open>The broadcast: \<^verbatim>\<open>send_ssdp_broadcast\<close>\<close>

text \<open>
  The receive loop \<^verbatim>\<open>while True: res.append(sock.recvfrom(10240))\<close>. It ends when
  \<^verbatim>\<open>recvfrom\<close> raises: the result is \<open>None\<close> in its first component when the loop was
  left by \<^verbatim>\<open>socket.timeout\<close>, and the error otherwise. A socket on which datagrams never
  stop arriving keeps the loop running: the function is partial.
\<close>

partial_function (option) recv_loop ::
  "(nat \<Rightarrow> recv_result) \<Rightarrow> nat \<Rightarrow> raw list \<Rightarrow> (exn option \<times> raw list) option" where
  "recv_loop rf k res =
     (case rf k of
        Datagram payload sender \<Rightarrow> recv_loop rf (Suc k) (res @ [(payload, sender)])
      | Timeout \<Rightarrow> Some (None, res)
      | RecvError \<Rightarrow> Some (Some OSError, res))"

declare recv_loop.simps [code]

text \<open>
  One broadcast-and-collect cycle: the body of the loop over the search targets (lines
  106 to 123), for the local address \<open>ip\<close> and the target \<open>ssdp_st\<close>, with the responses
  \<open>res\<close> collected so far. The socket is closed in the handler of \<^verbatim>\<open>socket.timeout\<close>
  and once more under \<^verbatim>\<open>if res:\<close>; no other statement closes it. The \<^verbatim>\<open>break\<close>
  of \<^verbatim>\<open>if res:\<close> is taken by \<open>st_loop\<close>.
\<close>

definition broadcast_cycle ::
  "env \<Rightarrow> str \<Rightarrow> str \<Rightarrow> world \<Rightarrow> raw list \<Rightarrow> ((exn + raw list) \<times> world) option" where
  "broadcast_cycle env ip ssdp_st w res =
     (let sock = next_sock w; script = net env sock in
      if socket_fails script then Some (Inl OSError, w)
      else
        let w1 = w\<lparr>open_socks := insert sock (open_socks w), next_sock := Suc sock\<rparr> in
        if bind_fails script then Some (Inl OSError, w1)
        else
          (case ssdp_request ssdp_st SSDP_MX of
             Inl e \<Rightarrow> Some (Inl e, w1)
           | Inr request \<Rightarrow>
               if sendto_fails script then Some (Inl OSError, w1)
               else
                 let w2 = w1\<lparr>sent := sent w1 @ [(ip, request)]\<rparr> in
                 (case recv_loop (recvfrom script) 0 res of
                    None \<Rightarrow> None
                  | Some (Some e, res') \<Rightarrow> Some (Inl e, w2)
                  | Some (None, res') \<Rightarrow>
                      let w3 = close sock w2 in
                      if res' \<noteq> [] then Some (Inr res', close sock w3)
                      else Some (Inr res', w3))))"

text \<open>The loop over the search targets, left at the first target after which \<open>res\<close> is not empty.\<close>

fun st_loop ::
  "env \<Rightarrow> str \<Rightarrow> str list \<Rightarrow> world \<Rightarrow> raw list \<Rightarrow> ((exn + raw list) \<times> world) option" where
  "st_loop env ip [] w res = Some (Inr res, w)"
| "st_loop env ip (ssdp_st # sts) w res =
     (case broadcast_cycle env ip ssdp_st w res of
        None \<Rightarrow> None
      | Some (Inl e, w') \<Rightarrow> Some (Inl e, w')
      | Some (Inr res', w') \<Rightarrow>
          if res' \<noteq> [] then Some (Inr res', w') else st_loop env ip sts w' res')"

text \<open>
  The loop over the local addresses: an address the pattern matches is skipped, and the
  loop is left at the first address after which \<open>res\<close> is not empty.
\<close>

fun ip_loop ::
  "env \<Rightarrow> str list \<Rightarrow> world \<Rightarrow> raw list \<Rightarrow> ((exn + raw list) \<times> world) option" where
  "ip_loop env [] w res = Some (Inr res, w)"
| "ip_loop env (ip # ips) w res =
     (if re_search LINK_LOCAL_PATTERN ip then ip_loop env ips w res
      else
        (case st_loop env ip SSDP_ST_LIST w res of
           None \<Rightarrow> None
         | Some (Inl e, w') \<Rightarrow> Some (Inl e, w')
         | Some (Inr res', w') \<Rightarrow>
             if res' \<noteq> [] then Some (Inr res', w') else ip_loop env ips w' res'))"

text \<open>The loop over the responses, which fills the set \<open>urls\<close>.\<close>

fun collect_urls :: "raw list \<Rightarrow> str set \<Rightarrow> exn + str set" where
  "collect_urls [] urls = Inr urls"
| "collect_urls (entry # rest) urls =
     (case utf8_decode (fst entry) of
        Inl e \<Rightarrow> Inl e
      | Inr entry_text \<Rightarrow>
          (case re_search_location entry_text of
             Some m \<Rightarrow> collect_urls rest (insert m urls)
           | None \<Rightarrow> collect_urls rest urls))"

definition send_ssdp_broadcast :: "env \<Rightarrow> world \<Rightarrow> ((exn + str set) \<times> world) option" where
  "send_ssdp_broadcast env w =
     (case ip_loop env (get_local_ips env) w [] of
        None \<Rightarrow> None
      | Some (Inl e, w') \<Rightarrow> Some (Inl e, w')
      | Some (Inr res, w') \<Rightarrow> Some (collect_urls res {}, w'))"

section \<open>The description document: \<^verbatim>\<open>evaluate_scpd_xml\<close>\<close>

text \<open>
  \<^verbatim>\<open>x.find(path)\<close> and \<^verbatim>\<open>x.text\<close>, where \<open>x\<close> is an element or \<^verbatim>\<open>None\<close>:
  on \<^verbatim>\<open>None\<close> both raise \<^verbatim>\<open>AttributeError\<close>; on an element, \<^verbatim>\<open>find\<close> with a tag
  returns the first child with that tag, or \<^verbatim>\<open>None\<close>.
\<close>

definition el_find :: "element option \<Rightarrow> str \<Rightarrow> exn + element option" where
  "el_find x path =
     (case x of
        None \<Rightarrow> Inl AttributeError
      | Some el \<Rightarrow> Inr (List.find (\<lambda>c. tag c = path) (children el)))"

definition el_text :: "element option \<Rightarrow> exn + str option" where
  "el_text x = (case x of None \<Rightarrow> Inl AttributeError | Some el \<Rightarrow> Inr (etext el))"

text \<open>The expression \<^verbatim>\<open>root.find(SCPD_DEVICE).find(path).text\<close>, which the source repeats.\<close>

definition device_child_text :: "element \<Rightarrow> str \<Rightarrow> exn + str option" where
  "device_child_text root path =
     (case el_find (Some root) SCPD_DEVICE of
        Inl e \<Rightarrow> Inl e
      | Inr dev \<Rightarrow> (case el_find dev path of Inl e \<Rightarrow> Inl e | Inr c \<Rightarrow> el_text c))"

text \<open>
  What the function returns: \<^verbatim>\<open>False\<close>, or the dictionary \<^verbatim>\<open>device\<close>, whose values
  are element texts (a string or \<^verbatim>\<open>None\<close>). A dictionary keeps its keys in the order
  they were first stored.
\<close>

type_synonym pydict = "(str \<times> str option) list"

datatype pyresult = PFalse | PDict pydict

text \<open>
  The body of the \<^verbatim>\<open>try\<close> statement (lines 162 to 187). \<^verbatim>\<open>x in SUPPORTED_MANUFACTURERS\<close>
  is false for \<^verbatim>\<open>None\<close>; \<^verbatim>\<open>and\<close> does not evaluate the device type when the
  manufacturer is not supported.
\<close>

definition scpd_body :: "env \<Rightarrow> str \<Rightarrow> exn + pyresult" where
  "scpd_body env txt =
     (case fromstring env txt of
        Malformed \<Rightarrow> Inl ParseError
      | Parsed root \<Rightarrow>
     (case device_child_text root SCPD_MANUFACTURER of
        Inl e \<Rightarrow> Inl e
      | Inr manufacturer \<Rightarrow>
     (let device = AList.update (str_of ''manufacturer'') manufacturer [] in
      if manufacturer \<notin> Some ` set SUPPORTED_MANUFACTURERS then Inr PFalse
      else
     (case device_child_text root SCPD_DEVICETYPE of
        Inl e \<Rightarrow> Inl e
      | Inr devicetype \<Rightarrow>
      if devicetype \<noteq> Some DEVICETYPE_DENON then Inr PFalse
      else
     (case device_child_text root SCPD_PRESENTATIONURL of
        Inl e \<Rightarrow> Inl e
      | Inr url_text \<Rightarrow>
     (case urlparse_hostname env url_text of
        Malformed \<Rightarrow> Inl ValueError
      | Parsed host \<Rightarrow>
     (let device = AList.update (str_of ''host'') host device in
     (case device_child_text root SCPD_PRESENTATIONURL of
        Inl e \<Rightarrow> Inl e
      | Inr presentation \<Rightarrow>
     (let device = AList.update (str_of ''presentationURL'') presentation device in
     (case device_child_text root SCPD_MODELNAME of
        Inl e \<Rightarrow> Inl e
      | Inr model \<Rightarrow>
     (let device = AList.update (str_of ''modelName'') model device in
     (case device_child_text root SCPD_SERIALNUMBER of
        Inl e \<Rightarrow> Inl e
      | Inr serial \<Rightarrow>
     (let device = AList.update (str_of ''serialNumber'') serial device in
     (case device_child_text root SCPD_FRIENDLYNAME of
        Inl e \<Rightarrow> Inl e
      | Inr friendly \<Rightarrow>
     (let device = AList.update (str_of ''friendlyName'') friendly device in
      Inr (PDict device))))))))))))))))"

text \<open>The handler \<^verbatim>\<open>except (AttributeError, ValueError, ET.ParseError)\<close>.\<close>

definition caught :: "exn \<Rightarrow> bool" where
  "caught e = (e = AttributeError \<or> e = ValueError \<or> e = ParseError)"

text \<open>
  \<^verbatim>\<open>evaluate_scpd_xml(url)\<close>. Both handlers around \<^verbatim>\<open>requests.get\<close> raise the
  exception again (the second one after logging it), and any other exception passes.
\<close>

definition evaluate_scpd_xml :: "env \<Rightarrow> str \<Rightarrow> exn + pyresult" where
  "evaluate_scpd_xml env url =
     (case requests_get env url of
        Inl e \<Rightarrow>
          (if e = ConnectTimeout then Inl e
           else if is_RequestException e then Inl e
           else Inl e)
      | Inr res \<Rightarrow>
          if status_code res = 200 then
            (case scpd_body env (res_text res) of
               Inl err \<Rightarrow> if caught err then Inr PFalse else Inl err
             | Inr r \<Rightarrow> Inr r)
          else Inr PFalse)"

section \<open>The entry point: \<^verbatim>\<open>identify_denonavr_receivers\<close>\<close>

text \<open>\<^verbatim>\<open>if receiver:\<close> is false for \<^verbatim>\<open>False\<close> and for an empty dictionary.\<close>

fun truthy :: "pyresult \<Rightarrow> bool" where
  "truthy PFalse = False"
| "truthy (PDict d) = (d \<noteq> [])"

text \<open>The loop over the URLs, in the order the loop visits them.\<close>

fun receivers_loop :: "env \<Rightarrow> str list \<Rightarrow> pyresult list \<Rightarrow> exn + pyresult list" where
  "receivers_loop env [] receivers = Inr receivers"
| "receivers_loop env (url # urls) receivers =
     (case evaluate_scpd_xml env url of
        Inl e \<Rightarrow> if is_RequestException e then receivers_loop env urls receivers else Inl e
      | Inr receiver \<Rightarrow>
          if truthy receiver then receivers_loop env urls (receivers @ [receiver])
          else receivers_loop env urls receivers)"

definition identify_denonavr_receivers ::
  "env \<Rightarrow> world \<Rightarrow> ((exn + pyresult list) \<times> world) option" where
  "identify_denonavr_receivers env w =
     (case send_ssdp_broadcast env w of
        None \<Rightarrow> None
      | Some (Inl e, w') \<Rightarrow> Some (Inl e, w')
      | Some (Inr urls, w') \<Rightarrow> Some (receivers_loop env (set_iter env urls) [], w'))"

section \<open>Notions used in the statements\<close>

text \<open>\<open>occurs p s\<close>: the string \<open>p\<close> occurs in the string \<open>s\<close>.\<close>

fun occurs :: "str \<Rightarrow> str \<Rightarrow> bool" where
  "occurs p [] = (p = [])"
| "occurs p (x # xs) = (take (length p) (x # xs) = p \<or> occurs p xs)"

section \<open>Example inputs\<close>

text \<open>
  A description document with the given children of its \<^verbatim>\<open>device\<close> element, and an
  environment whose HTTP server answers every request with status 200 and that document.
\<close>

definition description :: "(str \<times> str option) list \<Rightarrow> element" where
  "description flds =
     Element (SCPD_XMLNS @ str_of ''root'') None
       [Element SCPD_DEVICE None (map (\<lambda>(t, x). Element t x []) flds)]"

definition quiet :: sock_script where
  "quiet = \<lparr>socket_fails = False, bind_fails = False, sendto_fails = False,
            recvfrom = (\<lambda>k. Timeout)\<rparr>"

definition example_url :: str where
  "example_url = str_of ''http://192.168.1.50:60006/desc.xml''"

definition http_env :: "element parsed \<Rightarrow> env" where
  "http_env doc =
     \<lparr>get_adapters = [],
      net = (\<lambda>k. quiet),
      requests_get = (\<lambda>u. Inr \<lparr>status_code = 200, res_text = []\<rparr>),
      fromstring = (\<lambda>t. doc),
      urlparse_hostname = (\<lambda>t. Parsed (Some (str_of ''192.168.1.50''))),
      set_iter = (\<lambda>S. [])\<rparr>"

text \<open>A receiver's document; its \<^verbatim>\<open>serialNumber\<close> element is empty.\<close>

definition receiver_doc :: element where
  "receiver_doc =
     description
       [(SCPD_DEVICETYPE, Some DEVICETYPE_DENON),
        (SCPD_FRIENDLYNAME, Some (str_of ''Living Room AVR'')),
        (SCPD_MANUFACTURER, Some (str_of ''Denon'')),
        (SCPD_MODELNAME, Some (str_of ''AVR-X2000'')),
        (SCPD_SERIALNUMBER, None),
        (SCPD_PRESENTATIONURL, Some (str_of ''http://192.168.1.50''))]"

text \<open>The same device without a \<^verbatim>\<open>presentationURL\<close> element.\<close>

definition no_presentation_doc :: element where
  "no_presentation_doc =
     description
       [(SCPD_DEVICETYPE, Some DEVICETYPE_DENON),
        (SCPD_FRIENDLYNAME, Some (str_of ''Living Room AVR'')),
        (SCPD_MANUFACTURER, Some (str_of ''Denon'')),
        (SCPD_MODELNAME, Some (str_of ''AVR-X2000'')),
        (SCPD_SERIALNUMBER, Some (str_of ''0005CD000000''))]"

text \<open>Documents that differ from a receiver's in one field.\<close>

definition other_doc :: "str \<Rightarrow> str \<Rightarrow> element" where
  "other_doc manufacturer devicetype =
     description
       [(SCPD_DEVICETYPE, Some devicetype),
        (SCPD_FRIENDLYNAME, Some (str_of ''Living Room AVR'')),
        (SCPD_MANUFACTURER, Some manufacturer),
        (SCPD_MODELNAME, Some (str_of ''AVR-X2000'')),
        (SCPD_SERIALNUMBER, Some (str_of ''0005CD000000'')),
        (SCPD_PRESENTATIONURL, Some (str_of ''http://192.168.1.50''))]"

text \<open>A document without a \<^verbatim>\<open>manufacturer\<close> element, and one without a \<^verbatim>\<open>device\<close> element.\<close>

definition no_manufacturer_doc :: element where
  "no_manufacturer_doc = description [(SCPD_DEVICETYPE, Some DEVICETYPE_DENON)]"

definition no_device_doc :: element where
  "no_device_doc = Element (SCPD_XMLNS @ str_of ''root'') None []"

text \<open>
  A world with no open socket, and an environment given by its adapters and its network,
  whose HTTP server answers every request with the receiver's document.
\<close>

definition w0 :: world where
  "w0 = \<lparr>open_socks = {}, next_sock = 0, sent = []\<rparr>"

definition net_env :: "ip_addr list list \<Rightarrow> (nat \<Rightarrow> sock_script) \<Rightarrow> env" where
  "net_env adapters scripts =
     \<lparr>get_adapters = adapters,
      net = scripts,
      requests_get = (\<lambda>u. Inr \<lparr>status_code = 200, res_text = []\<rparr>),
      fromstring = (\<lambda>t. Parsed receiver_doc),
      urlparse_hostname = (\<lambda>t. Parsed (Some (str_of ''192.168.1.50''))),
      set_iter = (\<lambda>S. if S = {example_url} then [example_url] else [])\<rparr>"


text \<open>A response that names \<open>example_url\<close>, and a socket that receives it once.\<close>

definition example_response :: raw where
  "example_response =
     (map of_nat
        (str_of ''HTTP/1.1 200 OK'' @ CRLF @
         str_of ''LOCATION: http://192.168.1.50:60006/desc.xml'' @ CRLF @
         str_of ''ST: upnp:rootdevice'' @ CRLF @ CRLF),
      (str_of ''192.168.1.50'', 1900))"

definition answered :: sock_script where
  "answered = \<lparr>socket_fails = False, bind_fails = False, sendto_fails = False,
               recvfrom = (\<lambda>k. if k = 0 then Datagram (fst example_response) (snd example_response)
                                else Timeout)\<rparr>"

text \<open>
  Three adapters with one address each, on a network where the first three sockets of a
  run receive nothing and the fourth receives one response.
\<close>

definition three_adapters :: "ip_addr list list" where
  "three_adapters =
     [[IPv4 (str_of ''10.0.0.7'')], [IPv4 (str_of ''192.168.1.10'')],
      [IPv4 (str_of ''172.16.0.4'')]]"

definition fourth_answers :: "nat \<Rightarrow> sock_script" where
  "fourth_answers k = (if k = 3 then answered else quiet)"

section \<open>Properties\<close>

subsection \<open>Facts about the description resolver\<close>

lemma device_child_text_error: "device_child_text root p = Inl e \<Longrightarrow> e = AttributeError"
  by (auto simp: device_child_text_def el_find_def el_text_def split: sum.splits option.splits)

lemma scpd_body_unsupported:
  assumes "fromstring env txt = Parsed root"
    and "\<not> (\<exists>m \<in> set SUPPORTED_MANUFACTURERS.
            device_child_text root SCPD_MANUFACTURER = Inr (Some m))"
  shows "scpd_body env txt = Inr PFalse \<or> scpd_body env txt = Inl AttributeError"
  using assms
  by (auto simp: scpd_body_def Let_def split: sum.splits dest: device_child_text_error)

lemma scpd_body_wrong_type:
  assumes "fromstring env txt = Parsed root"
    and "device_child_text root SCPD_DEVICETYPE \<noteq> Inr (Some DEVICETYPE_DENON)"
  shows "scpd_body env txt = Inr PFalse \<or> scpd_body env txt = Inl AttributeError"
  using assms
  by (auto simp: scpd_body_def Let_def split: sum.splits dest: device_child_text_error)

lemma scpd_body_record:
  assumes "fromstring env txt = Parsed root"
    and "device_child_text root SCPD_MANUFACTURER = Inr (Some m)"
    and "m \<in> set SUPPORTED_MANUFACTURERS"
    and "device_child_text root SCPD_DEVICETYPE = Inr (Some DEVICETYPE_DENON)"
    and "device_child_text root SCPD_PRESENTATIONURL = Inr p"
    and "urlparse_hostname env p = Parsed h"
    and "device_child_text root SCPD_MODELNAME = Inr mo"
    and "device_child_text root SCPD_SERIALNUMBER = Inr s"
    and "device_child_text root SCPD_FRIENDLYNAME = Inr f"
  shows "scpd_body env txt = Inr (PDict
     [(str_of ''manufacturer'', Some m), (str_of ''host'', h), (str_of ''presentationURL'', p),
      (str_of ''modelName'', mo), (str_of ''serialNumber'', s), (str_of ''friendlyName'', f)])"
  using assms by (simp add: scpd_body_def Let_def str_of_def image_iff)

lemma scpd_body_PDict:
  assumes "scpd_body env txt = Inr (PDict d)"
  shows "\<exists>root m p h mo s f. fromstring env txt = Parsed root
     \<and> device_child_text root SCPD_MANUFACTURER = Inr (Some m)
     \<and> m \<in> set SUPPORTED_MANUFACTURERS
     \<and> device_child_text root SCPD_DEVICETYPE = Inr (Some DEVICETYPE_DENON)
     \<and> device_child_text root SCPD_PRESENTATIONURL = Inr p
     \<and> urlparse_hostname env p = Parsed h
     \<and> device_child_text root SCPD_MODELNAME = Inr mo
     \<and> device_child_text root SCPD_SERIALNUMBER = Inr s
     \<and> device_child_text root SCPD_FRIENDLYNAME = Inr f
     \<and> d = [(str_of ''manufacturer'', Some m), (str_of ''host'', h),
            (str_of ''presentationURL'', p), (str_of ''modelName'', mo),
            (str_of ''serialNumber'', s), (str_of ''friendlyName'', f)]"
proof -
  obtain root where r: "fromstring env txt = Parsed root"
    using assms by (cases "fromstring env txt") (simp_all add: scpd_body_def)
  obtain mf where mf: "device_child_text root SCPD_MANUFACTURER = Inr mf"
    using assms r
    by (cases "device_child_text root SCPD_MANUFACTURER") (simp_all add: scpd_body_def)
  have sup: "mf \<in> Some ` set SUPPORTED_MANUFACTURERS"
    using assms r mf by (auto simp: scpd_body_def Let_def split: if_splits)
  then obtain m where m: "mf = Some m" "m \<in> set SUPPORTED_MANUFACTURERS" by auto
  obtain dt where dt: "device_child_text root SCPD_DEVICETYPE = Inr dt"
    using assms r mf sup
    by (cases "device_child_text root SCPD_DEVICETYPE") (simp_all add: scpd_body_def Let_def)
  have dt': "dt = Some DEVICETYPE_DENON"
    using assms r mf sup dt by (auto simp: scpd_body_def Let_def split: if_splits)
  obtain p where p: "device_child_text root SCPD_PRESENTATIONURL = Inr p"
    using assms r mf sup dt dt'
    by (cases "device_child_text root SCPD_PRESENTATIONURL")
      (simp_all add: scpd_body_def Let_def)
  obtain h where h: "urlparse_hostname env p = Parsed h"
    using assms r mf sup dt dt' p
    by (cases "urlparse_hostname env p") (simp_all add: scpd_body_def Let_def)
  obtain mo where mo: "device_child_text root SCPD_MODELNAME = Inr mo"
    using assms r mf sup dt dt' p h
    by (cases "device_child_text root SCPD_MODELNAME") (simp_all add: scpd_body_def Let_def)
  obtain s where s: "device_child_text root SCPD_SERIALNUMBER = Inr s"
    using assms r mf sup dt dt' p h mo
    by (cases "device_child_text root SCPD_SERIALNUMBER") (simp_all add: scpd_body_def Let_def)
  obtain f where f: "device_child_text root SCPD_FRIENDLYNAME = Inr f"
    using assms r mf sup dt dt' p h mo s
    by (cases "device_child_text root SCPD_FRIENDLYNAME") (simp_all add: scpd_body_def Let_def)
  have "scpd_body env txt = Inr (PDict
     [(str_of ''manufacturer'', Some m), (str_of ''host'', h), (str_of ''presentationURL'', p),
      (str_of ''modelName'', mo), (str_of ''serialNumber'', s), (str_of ''friendlyName'', f)])"
    using r mf m dt dt' p h mo s f by (intro scpd_body_record) simp_all
  with assms have "d =
     [(str_of ''manufacturer'', Some m), (str_of ''host'', h), (str_of ''presentationURL'', p),
      (str_of ''modelName'', mo), (str_of ''serialNumber'', s), (str_of ''friendlyName'', f)]"
    by simp
  with r mf m dt dt' p h mo s f show ?thesis by blast
qed

lemma scpd_body_error: "scpd_body env txt = Inl e \<Longrightarrow> caught e"
  by (auto simp: scpd_body_def Let_def caught_def
      split: sum.splits if_splits parsed.splits dest: device_child_text_error)

lemma evaluate_200:
  assumes "requests_get env url = Inr res" "status_code res = 200"
  shows "evaluate_scpd_xml env url =
     (case scpd_body env (res_text res) of Inl e \<Rightarrow> Inr PFalse | Inr r \<Rightarrow> Inr r)"
  using assms by (auto simp: evaluate_scpd_xml_def split: sum.splits dest: scpd_body_error)

text \<open>Evaluating \<open>device_child_text\<close> on the example documents.\<close>

lemmas doc_simps =
  device_child_text_def el_find_def el_text_def description_def
  SCPD_DEVICE_def SCPD_DEVICETYPE_def SCPD_MANUFACTURER_def SCPD_MODELNAME_def
  SCPD_SERIALNUMBER_def SCPD_FRIENDLYNAME_def SCPD_PRESENTATIONURL_def SCPD_XMLNS_def
  DEVICETYPE_DENON_def str_of_def

subsection \<open>C8: the search request\<close>

lemma format_d_1900: "format_d 1900 = str_of ''1900''"
  by (simp add: format_d_def str_of_def digits.simps)

lemma format_d_2: "format_d 2 = str_of ''2''"
  by (simp add: format_d_def str_of_def digits.simps)

text \<open>
  C8. For every search target \<open>st\<close> and integer \<open>mx\<close>, the request is the UTF-8
  encoding of the request line \<^verbatim>\<open>M-SEARCH * HTTP/1.1\<close>, the headers \<^verbatim>\<open>ST\<close>,
  \<^verbatim>\<open>MX\<close>, \<^verbatim>\<open>MAN\<close> and \<^verbatim>\<open>HOST\<close> in that order and a blank line, each of these six
  lines ending in CR LF.
\<close>

theorem C8_ssdp_request_format:
  "ssdp_request st mx =
     utf8_encode
       (str_of ''M-SEARCH * HTTP/1.1'' @ CRLF @
        str_of ''ST: '' @ st @ CRLF @
        str_of ''MX: '' @ format_d mx @ CRLF @
        str_of ''MAN: \"ssdp:discover\"'' @ CRLF @
        str_of ''HOST: 239.255.255.250:1900'' @ CRLF @
        CRLF)"
  by (simp add: ssdp_request_def SSDP_TARGET_def SSDP_ADDR_def SSDP_PORT_def format_d_1900
      str_of_def)

text \<open>The request for the first search target with the default wait time, byte by byte.\<close>

theorem C8_ssdp_request_format_witness:
  "ssdp_request SSDP_ST_1 SSDP_MX =
     Inr (map of_nat
       (str_of ''M-SEARCH * HTTP/1.1'' @ [13, 10] @
        str_of ''ST: ssdp:all'' @ [13, 10] @
        str_of ''MX: 2'' @ [13, 10] @
        str_of ''MAN: \"ssdp:discover\"'' @ [13, 10] @
        str_of ''HOST: 239.255.255.250:1900'' @ [13, 10] @
        [13, 10]))"
  using C8_ssdp_request_format [of SSDP_ST_1 SSDP_MX]
  by (simp add: SSDP_ST_1_def SSDP_MX_def format_d_2 str_of_def CRLF_def encode_cp_def)

subsection \<open>C4: the link-local filter\<close>

text \<open>
  C4. The address filter discards \<^verbatim>\<open>169.254.3.4\<close> and keeps \<^verbatim>\<open>192.168.1.10\<close>, but it
  also discards \<^verbatim>\<open>1.169.254.2\<close>, which is not in 169.254.0.0/16: the pattern is searched
  anywhere in the address. With that address alone the address loop ends without a
  broadcast and leaves the world as it was.
\<close>

theorem C4_link_local_filter_overmatches:
  "re_search LINK_LOCAL_PATTERN (str_of ''169.254.3.4'')
   \<and> \<not> re_search LINK_LOCAL_PATTERN (str_of ''192.168.1.10'')
   \<and> re_search LINK_LOCAL_PATTERN (str_of ''1.169.254.2'')
   \<and> ip_loop env [str_of ''1.169.254.2''] w [] = Some (Inr [], w)"
  by (simp add: LINK_LOCAL_PATTERN_def str_of_def)

subsection \<open>C1: when the resolver returns a record\<close>

text \<open>
  C1, as stated, fails: the document \<open>no_presentation_doc\<close> is well-formed, is served
  with status 200, has a supported manufacturer and the expected device type, and is
  rejected, because it has no \<^verbatim>\<open>presentationURL\<close> element.
\<close>

theorem C1_both_match_but_rejected:
  "requests_get (http_env (Parsed no_presentation_doc)) example_url
     = Inr \<lparr>status_code = 200, res_text = []\<rparr>
   \<and> fromstring (http_env (Parsed no_presentation_doc)) [] = Parsed no_presentation_doc
   \<and> device_child_text no_presentation_doc SCPD_MANUFACTURER = Inr (Some (str_of ''Denon''))
   \<and> str_of ''Denon'' \<in> set SUPPORTED_MANUFACTURERS
   \<and> device_child_text no_presentation_doc SCPD_DEVICETYPE = Inr (Some DEVICETYPE_DENON)
   \<and> evaluate_scpd_xml (http_env (Parsed no_presentation_doc)) example_url = Inr PFalse"
  by (simp add: evaluate_scpd_xml_def scpd_body_def http_env_def no_presentation_doc_def
      SUPPORTED_MANUFACTURERS_def caught_def doc_simps)

text \<open>
  C1, amended. For a document served with status 200 that is well-formed XML, the resolver
  returns a record iff the manufacturer text is a supported one, the device type text is
  the expected URI, the elements \<^verbatim>\<open>presentationURL\<close>, \<^verbatim>\<open>modelName\<close>,
  \<^verbatim>\<open>serialNumber\<close> and \<^verbatim>\<open>friendlyName\<close> are present and the presentation URL can be
  split; and whenever the manufacturer or the device type does not match, it returns
  \<^verbatim>\<open>False\<close>.
\<close>

theorem C1_record_iff_match_and_present:
  assumes "requests_get env url = Inr res" and "status_code res = 200"
    and "fromstring env (res_text res) = Parsed root"
  shows "((\<exists>d. evaluate_scpd_xml env url = Inr (PDict d)) \<longleftrightarrow>
            (\<exists>m \<in> set SUPPORTED_MANUFACTURERS.
                device_child_text root SCPD_MANUFACTURER = Inr (Some m))
            \<and> device_child_text root SCPD_DEVICETYPE = Inr (Some DEVICETYPE_DENON)
            \<and> (\<exists>p h. device_child_text root SCPD_PRESENTATIONURL = Inr p
                      \<and> urlparse_hostname env p = Parsed h)
            \<and> (\<exists>x. device_child_text root SCPD_MODELNAME = Inr x)
            \<and> (\<exists>x. device_child_text root SCPD_SERIALNUMBER = Inr x)
            \<and> (\<exists>x. device_child_text root SCPD_FRIENDLYNAME = Inr x))
         \<and> (\<not> ((\<exists>m \<in> set SUPPORTED_MANUFACTURERS.
                    device_child_text root SCPD_MANUFACTURER = Inr (Some m))
                \<and> device_child_text root SCPD_DEVICETYPE = Inr (Some DEVICETYPE_DENON))
              \<longrightarrow> evaluate_scpd_xml env url = Inr PFalse)"
    (is "(?rec \<longleftrightarrow> ?mf \<and> ?dt \<and> ?pu \<and> ?mo \<and> ?sn \<and> ?fn) \<and> (\<not> (?mf' \<and> ?dt') \<longrightarrow> ?rej)")
proof -
  have only_if: "?mf \<and> ?dt \<and> ?pu \<and> ?mo \<and> ?sn \<and> ?fn" if ?rec
  proof -
    from that obtain d where "evaluate_scpd_xml env url = Inr (PDict d)" ..
    then have "scpd_body env (res_text res) = Inr (PDict d)"
      using assms by (simp add: evaluate_200 split: sum.splits)
    from scpd_body_PDict [OF this] assms(3) show ?thesis by auto
  qed
  have "if": ?rec if "?mf \<and> ?dt \<and> ?pu \<and> ?mo \<and> ?sn \<and> ?fn"
  proof -
    from that obtain m p h mo s f where
      "device_child_text root SCPD_MANUFACTURER = Inr (Some m)"
      "m \<in> set SUPPORTED_MANUFACTURERS"
      "device_child_text root SCPD_DEVICETYPE = Inr (Some DEVICETYPE_DENON)"
      "device_child_text root SCPD_PRESENTATIONURL = Inr p"
      "urlparse_hostname env p = Parsed h"
      "device_child_text root SCPD_MODELNAME = Inr mo"
      "device_child_text root SCPD_SERIALNUMBER = Inr s"
      "device_child_text root SCPD_FRIENDLYNAME = Inr f"
      by blast
    from scpd_body_record [OF assms(3) this] show ?thesis
      using assms by (simp add: evaluate_200)
  qed
  have mismatch: ?rej if "\<not> (?mf \<and> ?dt)"
  proof -
    from that have "scpd_body env (res_text res) = Inr PFalse
        \<or> scpd_body env (res_text res) = Inl AttributeError"
      using scpd_body_unsupported [OF assms(3)] scpd_body_wrong_type [OF assms(3)] by blast
    then show ?thesis using assms by (auto simp: evaluate_200)
  qed
  from only_if "if" mismatch show ?thesis by blast
qed

text \<open>
  The receiver's document gives a record; the same document from the manufacturer
  \<^verbatim>\<open>Sony\<close>, or with another device type, is rejected.
\<close>

theorem C1_record_iff_match_and_present_witness:
  "(\<exists>d. evaluate_scpd_xml (http_env (Parsed receiver_doc)) example_url = Inr (PDict d))
   \<and> evaluate_scpd_xml (http_env (Parsed (other_doc (str_of ''Sony'') DEVICETYPE_DENON)))
        example_url = Inr PFalse
   \<and> evaluate_scpd_xml
        (http_env (Parsed (other_doc (str_of ''Denon'') (str_of ''upnp:rootdevice''))))
        example_url = Inr PFalse"
proof (intro conjI)
  show "\<exists>d. evaluate_scpd_xml (http_env (Parsed receiver_doc)) example_url = Inr (PDict d)"
    using C1_record_iff_match_and_present
      [of "http_env (Parsed receiver_doc)" example_url
          "\<lparr>status_code = 200, res_text = []\<rparr>" receiver_doc]
    by (simp add: http_env_def receiver_doc_def SUPPORTED_MANUFACTURERS_def doc_simps)
  show "evaluate_scpd_xml (http_env (Parsed (other_doc (str_of ''Sony'') DEVICETYPE_DENON)))
        example_url = Inr PFalse"
    using C1_record_iff_match_and_present
      [of "http_env (Parsed (other_doc (str_of ''Sony'') DEVICETYPE_DENON))" example_url
          "\<lparr>status_code = 200, res_text = []\<rparr>" "other_doc (str_of ''Sony'') DEVICETYPE_DENON"]
    by (simp add: http_env_def other_doc_def SUPPORTED_MANUFACTURERS_def doc_simps)
  show "evaluate_scpd_xml
        (http_env (Parsed (other_doc (str_of ''Denon'') (str_of ''upnp:rootdevice''))))
        example_url = Inr PFalse"
    using C1_record_iff_match_and_present
      [of "http_env (Parsed (other_doc (str_of ''Denon'') (str_of ''upnp:rootdevice'')))"
          example_url "\<lparr>status_code = 200, res_text = []\<rparr>"
          "other_doc (str_of ''Denon'') (str_of ''upnp:rootdevice'')"]
    by (simp add: http_env_def other_doc_def SUPPORTED_MANUFACTURERS_def doc_simps)
qed

subsection \<open>C6: malformed documents and missing elements\<close>

text \<open>
  C6. When a response with status 200 carries text that is not well-formed XML, or a
  document in which one of the elements the resolver reads is missing (the \<^verbatim>\<open>device\<close>
  element itself, or its \<^verbatim>\<open>manufacturer\<close>, \<^verbatim>\<open>deviceType\<close>, \<^verbatim>\<open>presentationURL\<close>,
  \<^verbatim>\<open>modelName\<close>, \<^verbatim>\<open>serialNumber\<close> or \<^verbatim>\<open>friendlyName\<close> child), the resolver returns
  \<^verbatim>\<open>False\<close>; no exception leaves it.
\<close>

theorem C6_malformed_or_incomplete_rejected:
  assumes "requests_get env url = Inr res" and "status_code res = 200"
    and "fromstring env (res_text res) = Malformed
         \<or> (\<exists>root path. fromstring env (res_text res) = Parsed root
               \<and> path \<in> {SCPD_MANUFACTURER, SCPD_DEVICETYPE, SCPD_PRESENTATIONURL,
                           SCPD_MODELNAME, SCPD_SERIALNUMBER, SCPD_FRIENDLYNAME}
               \<and> device_child_text root path = Inl AttributeError)"
  shows "evaluate_scpd_xml env url = Inr PFalse"
proof (cases "scpd_body env (res_text res)")
  case (Inl e)
  then show ?thesis using assms(1,2) by (simp add: evaluate_200)
next
  case (Inr r)
  show ?thesis
  proof (cases r)
    case PFalse
    with Inr show ?thesis using assms(1,2) by (simp add: evaluate_200)
  next
    case (PDict d)
    with Inr have "scpd_body env (res_text res) = Inr (PDict d)" by simp
    from scpd_body_PDict [OF this] assms(3) have False by auto
    then show ?thesis ..
  qed
qed

text \<open>
  Text that does not parse, a document without a \<^verbatim>\<open>device\<close> element, one without a
  \<^verbatim>\<open>manufacturer\<close> element and one without a \<^verbatim>\<open>presentationURL\<close> element.
\<close>

theorem C6_malformed_or_incomplete_rejected_witness:
  "evaluate_scpd_xml (http_env Malformed) example_url = Inr PFalse
   \<and> evaluate_scpd_xml (http_env (Parsed no_device_doc)) example_url = Inr PFalse
   \<and> evaluate_scpd_xml (http_env (Parsed no_manufacturer_doc)) example_url = Inr PFalse
   \<and> evaluate_scpd_xml (http_env (Parsed no_presentation_doc)) example_url = Inr PFalse"
proof (intro conjI)
  show "evaluate_scpd_xml (http_env Malformed) example_url = Inr PFalse"
    using C6_malformed_or_incomplete_rejected
      [of "http_env Malformed" example_url "\<lparr>status_code = 200, res_text = []\<rparr>"]
    by (simp add: http_env_def)
  have "device_child_text no_device_doc SCPD_MANUFACTURER = Inl AttributeError"
    by (simp add: no_device_doc_def doc_simps)
  then show "evaluate_scpd_xml (http_env (Parsed no_device_doc)) example_url = Inr PFalse"
    using C6_malformed_or_incomplete_rejected
      [of "http_env (Parsed no_device_doc)" example_url
          "\<lparr>status_code = 200, res_text = []\<rparr>"]
    by (auto simp: http_env_def)
  have "device_child_text no_manufacturer_doc SCPD_MANUFACTURER = Inl AttributeError"
    by (simp add: no_manufacturer_doc_def doc_simps)
  then show "evaluate_scpd_xml (http_env (Parsed no_manufacturer_doc)) example_url = Inr PFalse"
    using C6_malformed_or_incomplete_rejected
      [of "http_env (Parsed no_manufacturer_doc)" example_url
          "\<lparr>status_code = 200, res_text = []\<rparr>"]
    by (auto simp: http_env_def)
  have "device_child_text no_presentation_doc SCPD_PRESENTATIONURL = Inl AttributeError"
    by (simp add: no_presentation_doc_def doc_simps)
  then show "evaluate_scpd_xml (http_env (Parsed no_presentation_doc)) example_url = Inr PFalse"
    using C6_malformed_or_incomplete_rejected
      [of "http_env (Parsed no_presentation_doc)" example_url
          "\<lparr>status_code = 200, res_text = []\<rparr>"]
    by (auto simp: http_env_def)
qed

subsection \<open>C10: the manufacturer check\<close>

text \<open>
  C10. The supported manufacturers are the three strings \<^verbatim>\<open>Denon\<close>, \<^verbatim>\<open>DENON\<close> and
  \<^verbatim>\<open>Marantz\<close>, compared character by character: a document served with status 200 whose
  manufacturer text is anything else (another string, or no text at all) is rejected,
  whatever its device type.
\<close>

theorem C10_manufacturer_case_sensitive:
  assumes "requests_get env url = Inr res" and "status_code res = 200"
    and "fromstring env (res_text res) = Parsed root"
    and "device_child_text root SCPD_MANUFACTURER = Inr m"
    and "m \<notin> {Some (str_of ''Denon''), Some (str_of ''DENON''), Some (str_of ''Marantz'')}"
  shows "evaluate_scpd_xml env url = Inr PFalse"
proof -
  have "m \<notin> Some ` set SUPPORTED_MANUFACTURERS"
    using assms(5) by (auto simp: SUPPORTED_MANUFACTURERS_def)
  then have "scpd_body env (res_text res) = Inr PFalse"
    using assms(3,4) by (simp add: scpd_body_def Let_def)
  then show ?thesis using assms(1,2) by (simp add: evaluate_200)
qed

text \<open>
  The manufacturers \<^verbatim>\<open>denon\<close> and \<^verbatim>\<open>marantz\<close>, each with the expected device type and
  every other element in place.
\<close>

theorem C10_manufacturer_case_sensitive_witness:
  "evaluate_scpd_xml (http_env (Parsed (other_doc (str_of ''denon'') DEVICETYPE_DENON)))
     example_url = Inr PFalse
   \<and> evaluate_scpd_xml (http_env (Parsed (other_doc (str_of ''marantz'') DEVICETYPE_DENON)))
     example_url = Inr PFalse"
proof (intro conjI)
  have "device_child_text (other_doc (str_of ''denon'') DEVICETYPE_DENON) SCPD_MANUFACTURER
      = Inr (Some (str_of ''denon''))"
    by (simp add: other_doc_def doc_simps)
  then show "evaluate_scpd_xml (http_env (Parsed (other_doc (str_of ''denon'') DEVICETYPE_DENON)))
     example_url = Inr PFalse"
    using C10_manufacturer_case_sensitive
      [of "http_env (Parsed (other_doc (str_of ''denon'') DEVICETYPE_DENON))" example_url
          "\<lparr>status_code = 200, res_text = []\<rparr>"
          "other_doc (str_of ''denon'') DEVICETYPE_DENON" "Some (str_of ''denon'')"]
    by (simp add: http_env_def str_of_def)
  have "device_child_text (other_doc (str_of ''marantz'') DEVICETYPE_DENON) SCPD_MANUFACTURER
      = Inr (Some (str_of ''marantz''))"
    by (simp add: other_doc_def doc_simps)
  then show "evaluate_scpd_xml
     (http_env (Parsed (other_doc (str_of ''marantz'') DEVICETYPE_DENON)))
     example_url = Inr PFalse"
    using C10_manufacturer_case_sensitive
      [of "http_env (Parsed (other_doc (str_of ''marantz'') DEVICETYPE_DENON))" example_url
          "\<lparr>status_code = 200, res_text = []\<rparr>"
          "other_doc (str_of ''marantz'') DEVICETYPE_DENON" "Some (str_of ''marantz'')"]
    by (simp add: http_env_def str_of_def)
qed

subsection \<open>Facts about the receive loop and the broadcast cycle\<close>

lemma utf8_encode_ascii: "\<forall>c \<in> set s. c < 128 \<Longrightarrow> utf8_encode s = Inr (map of_nat s)"
  by (induction s) (simp_all add: encode_cp_def)

lemma ssdp_request_ascii:
  assumes "\<forall>c \<in> set st. c < 128"
  shows "\<exists>r. ssdp_request st SSDP_MX = Inr r"
proof -
  have "ssdp_request st SSDP_MX = Inr (map of_nat
       (str_of ''M-SEARCH * HTTP/1.1'' @ CRLF @ str_of ''ST: '' @ st @ CRLF @
        str_of ''MX: 2'' @ CRLF @ str_of ''MAN: \"ssdp:discover\"'' @ CRLF @
        str_of ''HOST: 239.255.255.250:1900'' @ CRLF @ CRLF))"
    unfolding ssdp_request_def
    by (rule trans [OF _ utf8_encode_ascii])
      (use assms in \<open>simp_all add: SSDP_TARGET_def SSDP_ADDR_def SSDP_PORT_def SSDP_MX_def
        format_d_1900 format_d_2 str_of_def CRLF_def\<close>)
  then show ?thesis ..
qed

lemma ssdp_request_targets:
  "\<exists>r. ssdp_request SSDP_ST_1 SSDP_MX = Inr r"
  "\<exists>r. ssdp_request SSDP_ST_2 SSDP_MX = Inr r"
  "\<exists>r. ssdp_request SSDP_ST_3 SSDP_MX = Inr r"
  by (rule ssdp_request_ascii, simp add: SSDP_ST_1_def SSDP_ST_2_def SSDP_ST_3_def str_of_def)+

lemma recv_loop_timeout:
  assumes "\<forall>j<length ds. rf (k + j) = Datagram (fst (ds ! j)) (snd (ds ! j))"
    and "rf (k + length ds) = Timeout"
  shows "recv_loop rf k res = Some (None, res @ ds)"
  using assms
proof (induction ds arbitrary: k res)
  case Nil
  then show ?case by (simp add: recv_loop.simps)
next
  case (Cons d ds)
  from Cons.prems(1) have "rf (k + 0) = Datagram (fst ((d # ds) ! 0)) (snd ((d # ds) ! 0))"
    by blast
  then have d: "rf k = Datagram (fst d) (snd d)" by simp
  have "\<forall>j<length ds. rf (Suc k + j) = Datagram (fst (ds ! j)) (snd (ds ! j))"
  proof (intro allI impI)
    fix j assume "j < length ds"
    then have "Suc j < length (d # ds)" by simp
    with Cons.prems(1) have "rf (k + Suc j) = Datagram (fst ((d # ds) ! Suc j)) (snd ((d # ds) ! Suc j))"
      by blast
    then show "rf (Suc k + j) = Datagram (fst (ds ! j)) (snd (ds ! j))" by simp
  qed
  moreover have "rf (Suc k + length ds) = Timeout" using Cons.prems(2) by simp
  ultimately have "recv_loop rf (Suc k) (res @ [d]) = Some (None, (res @ [d]) @ ds)"
    by (rule Cons.IH)
  then show ?case using d by (subst recv_loop.simps) simp
qed


lemma recv_loop_Some:
  assumes "recv_loop rf k res = Some y"
  shows "\<exists>ds. snd y = res @ ds
           \<and> (ds = [] \<longrightarrow> rf k \<noteq> Timeout \<longrightarrow> rf k = RecvError)
           \<and> (ds \<noteq> [] \<longrightarrow> (\<exists>p a. rf k = Datagram p a))
           \<and> (fst y = None \<longrightarrow> ds = [] \<longrightarrow> rf k = Timeout)"
  using assms
proof (induction rf k res y rule: recv_loop.raw_induct [rotated 1, consumes 1])
  case (1 recv_loop' rf k res y)
  show ?case
  proof (cases "rf k")
    case (Datagram p a)
    with 1(2) have "recv_loop' rf (Suc k) (res @ [(p, a)]) = Some y" by simp
    from 1(1) [OF this] obtain ds where "snd y = (res @ [(p, a)]) @ ds" by blast
    then have "snd y = res @ ((p, a) # ds)" by simp
    then show ?thesis using Datagram by blast
  next
    case Timeout
    with 1(2) show ?thesis by auto
  next
    case RecvError
    with 1(2) show ?thesis by auto
  qed
qed

text \<open>The world after a cycle that was left by the timeout.\<close>

lemma broadcast_cycle_timeout:
  assumes "\<not> socket_fails (net env (next_sock w))"
    and "\<not> bind_fails (net env (next_sock w))"
    and "\<not> sendto_fails (net env (next_sock w))"
    and "ssdp_request ssdp_st SSDP_MX = Inr request"
    and "\<forall>j<length ds. recvfrom (net env (next_sock w)) j = Datagram (fst (ds ! j)) (snd (ds ! j))"
    and "recvfrom (net env (next_sock w)) (length ds) = Timeout"
  shows "broadcast_cycle env ip ssdp_st w res =
     Some (Inr (res @ ds),
           w\<lparr>open_socks := open_socks w - {next_sock w}, next_sock := Suc (next_sock w),
              sent := sent w @ [(ip, request)]\<rparr>)"
proof -
  have "recv_loop (recvfrom (net env (next_sock w))) 0 res = Some (None, res @ ds)"
    using assms(5,6) by (intro recv_loop_timeout) simp_all
  then show ?thesis
    using assms(1-4) by (simp add: broadcast_cycle_def Let_def close_def)
qed

lemma broadcast_cycle_normal:
  assumes "broadcast_cycle env ip ssdp_st w res = Some (Inr res', w')"
  shows "next_sock w \<notin> open_socks w' \<and> next_sock w' = Suc (next_sock w)
         \<and> (\<exists>ds. res' = res @ ds
               \<and> (ds = [] \<longrightarrow> recvfrom (net env (next_sock w)) 0 = Timeout))"
proof -
  from assms obtain y where y: "recv_loop (recvfrom (net env (next_sock w))) 0 res = Some y"
    and n: "fst y = None" and r: "snd y = res'"
    and w': "next_sock w \<notin> open_socks w' \<and> next_sock w' = Suc (next_sock w)"
    by (auto simp: broadcast_cycle_def Let_def close_def
        split: if_splits sum.splits option.splits prod.splits)
  from recv_loop_Some [OF y] n r w' show ?thesis by auto
qed

lemma broadcast_cycle_next_sock:
  assumes "broadcast_cycle env ip ssdp_st w res = Some (r, w')"
  shows "next_sock w' = next_sock w \<or> next_sock w' = Suc (next_sock w)"
  using assms
  by (auto simp: broadcast_cycle_def Let_def close_def
      split: if_splits sum.splits option.splits prod.splits)

subsection \<open>C3: closing the socket\<close>




subsection \<open>C5: the search stops at the first response\<close>

text \<open>
  Every socket of a run but the last one it created received nothing: its first
  \<^verbatim>\<open>recvfrom\<close> met the timeout.
\<close>

lemma st_loop_sockets:
  assumes "st_loop env ip sts w [] = Some (r, w')"
  shows "next_sock w \<le> next_sock w'
     \<and> (\<forall>k. next_sock w \<le> k \<and> Suc k < next_sock w' \<longrightarrow> recvfrom (net env k) 0 = Timeout)
     \<and> (r = Inr [] \<longrightarrow>
          (\<forall>k. next_sock w \<le> k \<and> k < next_sock w' \<longrightarrow> recvfrom (net env k) 0 = Timeout))"
  using assms
proof (induction sts arbitrary: w)
  case Nil
  then show ?case by auto
next
  case (Cons st sts)
  show ?case
  proof (cases "broadcast_cycle env ip st w []")
    case None
    with Cons.prems show ?thesis by simp
  next
    case (Some c)
    obtain r1 w1 where c: "c = (r1, w1)" by (cases c)
    from Some c broadcast_cycle_next_sock
    have step: "next_sock w1 = next_sock w \<or> next_sock w1 = Suc (next_sock w)" by blast
    show ?thesis
    proof (cases r1)
      case (Inl e)
      with Some c Cons.prems have "r = Inl e" "w' = w1" by simp_all
      with step show ?thesis by auto
    next
      case (Inr res1)
      with Some c have cyc: "broadcast_cycle env ip st w [] = Some (Inr res1, w1)" by simp
      from broadcast_cycle_normal [OF cyc]
      have n1: "next_sock w1 = Suc (next_sock w)"
        and silent: "res1 = [] \<longrightarrow> recvfrom (net env (next_sock w)) 0 = Timeout"
        by auto
      show ?thesis
      proof (cases "res1 = []")
        case False
        with cyc Cons.prems have "r = Inr res1" "w' = w1" by simp_all
        with n1 False show ?thesis by auto
      next
        case True
        with cyc Cons.prems have "st_loop env ip sts w1 [] = Some (r, w')" by simp
        from Cons.IH [OF this]
        have ih1: "next_sock w1 \<le> next_sock w'"
          and ih2: "\<And>k. next_sock w1 \<le> k \<Longrightarrow> Suc k < next_sock w' \<Longrightarrow>
                      recvfrom (net env k) 0 = Timeout"
          and ih3: "\<And>k. r = Inr [] \<Longrightarrow> next_sock w1 \<le> k \<Longrightarrow> k < next_sock w' \<Longrightarrow>
                      recvfrom (net env k) 0 = Timeout"
          by blast+
        have s0: "recvfrom (net env (next_sock w)) 0 = Timeout" using silent True by simp
        have cases_k: "k = next_sock w \<or> next_sock w1 \<le> k" if "next_sock w \<le> k" for k
          using that n1 by auto
        show ?thesis
        proof (intro conjI allI impI)
          show "next_sock w \<le> next_sock w'" using ih1 n1 by simp
        next
          fix k assume "next_sock w \<le> k \<and> Suc k < next_sock w'"
          then show "recvfrom (net env k) 0 = Timeout"
            using cases_k [of k] s0 ih2 [of k] by blast
        next
          fix k assume "r = Inr []" and "next_sock w \<le> k \<and> k < next_sock w'"
          then show "recvfrom (net env k) 0 = Timeout"
            using cases_k [of k] s0 ih3 [of k] by blast
        qed
      qed
    qed
  qed
qed

lemma ip_loop_sockets:
  assumes "ip_loop env ips w [] = Some (r, w')"
  shows "next_sock w \<le> next_sock w'
     \<and> (\<forall>k. next_sock w \<le> k \<and> Suc k < next_sock w' \<longrightarrow> recvfrom (net env k) 0 = Timeout)
     \<and> (r = Inr [] \<longrightarrow>
          (\<forall>k. next_sock w \<le> k \<and> k < next_sock w' \<longrightarrow> recvfrom (net env k) 0 = Timeout))"
  using assms
proof (induction ips arbitrary: w)
  case Nil
  then show ?case by auto
next
  case (Cons ip ips)
  show ?case
  proof (cases "re_search LINK_LOCAL_PATTERN ip")
    case True
    with Cons.prems have "ip_loop env ips w [] = Some (r, w')" by simp
    from Cons.IH [OF this] show ?thesis .
  next
    case False
    show ?thesis
    proof (cases "st_loop env ip SSDP_ST_LIST w []")
      case None
      with False Cons.prems show ?thesis by simp
    next
      case (Some c)
      obtain r1 w1 where c: "c = (r1, w1)" by (cases c)
      with Some have st: "st_loop env ip SSDP_ST_LIST w [] = Some (r1, w1)" by simp
      note inner = st_loop_sockets [OF st]
      show ?thesis
      proof (cases "r1 = Inr []")
        case True
        with st False Cons.prems have "ip_loop env ips w1 [] = Some (r, w')" by simp
        from Cons.IH [OF this]
        have ih1: "next_sock w1 \<le> next_sock w'"
          and ih2: "\<And>k. next_sock w1 \<le> k \<Longrightarrow> Suc k < next_sock w' \<Longrightarrow>
                      recvfrom (net env k) 0 = Timeout"
          and ih3: "\<And>k. r = Inr [] \<Longrightarrow> next_sock w1 \<le> k \<Longrightarrow> k < next_sock w' \<Longrightarrow>
                      recvfrom (net env k) 0 = Timeout"
          by blast+
        from inner True
        have in1: "next_sock w \<le> next_sock w1"
          and in3: "\<And>k. next_sock w \<le> k \<Longrightarrow> k < next_sock w1 \<Longrightarrow>
                      recvfrom (net env k) 0 = Timeout"
          by blast+
        have cases_k: "k < next_sock w1 \<or> next_sock w1 \<le> k" for k by auto
        show ?thesis
        proof (intro conjI allI impI)
          show "next_sock w \<le> next_sock w'" using ih1 in1 by simp
        next
          fix k assume "next_sock w \<le> k \<and> Suc k < next_sock w'"
          then show "recvfrom (net env k) 0 = Timeout"
            using cases_k [of k] in3 [of k] ih2 [of k] by blast
        next
          fix k assume "r = Inr []" and "next_sock w \<le> k \<and> k < next_sock w'"
          then show "recvfrom (net env k) 0 = Timeout"
            using cases_k [of k] in3 [of k] ih3 [of k] by blast
        qed
      next
        case False
        with st \<open>\<not> re_search LINK_LOCAL_PATTERN ip\<close> Cons.prems
        have "r = r1" "w' = w1" by (auto split: sum.splits if_splits)
        with inner False show ?thesis by auto
      qed
    qed
  qed
qed

text \<open>Three cycles in a row that receive nothing, and the cycle after them that receives \<open>ds\<close>.\<close>

lemma st_loop_silent:
  assumes "\<forall>k \<in> {next_sock w, next_sock w + 1, next_sock w + 2}.
             \<not> socket_fails (net env k) \<and> \<not> bind_fails (net env k)
             \<and> \<not> sendto_fails (net env k) \<and> recvfrom (net env k) 0 = Timeout"
    and "ssdp_request SSDP_ST_1 SSDP_MX = Inr r1"
    and "ssdp_request SSDP_ST_2 SSDP_MX = Inr r2"
    and "ssdp_request SSDP_ST_3 SSDP_MX = Inr r3"
  shows "st_loop env ip SSDP_ST_LIST w [] =
     Some (Inr [],
           w\<lparr>open_socks := open_socks w - {next_sock w, next_sock w + 1, next_sock w + 2},
              next_sock := next_sock w + 3,
              sent := sent w @ [(ip, r1), (ip, r2), (ip, r3)]\<rparr>)"
proof -
  let ?w1 = "w\<lparr>open_socks := open_socks w - {next_sock w}, next_sock := Suc (next_sock w),
                sent := sent w @ [(ip, r1)]\<rparr>"
  let ?w2 = "?w1\<lparr>open_socks := open_socks ?w1 - {next_sock ?w1},
                  next_sock := Suc (next_sock ?w1), sent := sent ?w1 @ [(ip, r2)]\<rparr>"
  let ?w3 = "?w2\<lparr>open_socks := open_socks ?w2 - {next_sock ?w2},
                  next_sock := Suc (next_sock ?w2), sent := sent ?w2 @ [(ip, r3)]\<rparr>"
  have c1: "broadcast_cycle env ip SSDP_ST_1 w [] = Some (Inr ([] @ []), ?w1)"
    using assms by (intro broadcast_cycle_timeout) simp_all
  have c2: "broadcast_cycle env ip SSDP_ST_2 ?w1 [] = Some (Inr ([] @ []), ?w2)"
    using assms by (intro broadcast_cycle_timeout) simp_all
  have c3: "broadcast_cycle env ip SSDP_ST_3 ?w2 [] = Some (Inr ([] @ []), ?w3)"
    using assms by (intro broadcast_cycle_timeout) simp_all
  have "st_loop env ip SSDP_ST_LIST w [] = Some (Inr [], ?w3)"
    using c1 c2 c3 by (simp add: SSDP_ST_LIST_def)
  moreover have "?w3 = w\<lparr>open_socks := open_socks w - {next_sock w, next_sock w + 1, next_sock w + 2},
              next_sock := next_sock w + 3,
              sent := sent w @ [(ip, r1), (ip, r2), (ip, r3)]\<rparr>"
    by (rule world.equality) auto
  ultimately show ?thesis by simp
qed

lemma st_loop_first_answers:
  assumes "\<not> socket_fails (net env (next_sock w))" and "\<not> bind_fails (net env (next_sock w))"
    and "\<not> sendto_fails (net env (next_sock w))"
    and "ssdp_request SSDP_ST_1 SSDP_MX = Inr r1"
    and "ds \<noteq> []"
    and "\<forall>j<length ds. recvfrom (net env (next_sock w)) j = Datagram (fst (ds ! j)) (snd (ds ! j))"
    and "recvfrom (net env (next_sock w)) (length ds) = Timeout"
  shows "st_loop env ip SSDP_ST_LIST w [] =
     Some (Inr ds,
           w\<lparr>open_socks := open_socks w - {next_sock w}, next_sock := Suc (next_sock w),
              sent := sent w @ [(ip, r1)]\<rparr>)"
proof -
  have "broadcast_cycle env ip SSDP_ST_1 w [] =
     Some (Inr ([] @ ds),
           w\<lparr>open_socks := open_socks w - {next_sock w}, next_sock := Suc (next_sock w),
              sent := sent w @ [(ip, r1)]\<rparr>)"
    using assms by (intro broadcast_cycle_timeout) simp_all
  then show ?thesis using assms(5) by (simp add: SSDP_ST_LIST_def)
qed

lemma ip_loop_second_answers:
  assumes "\<not> re_search LINK_LOCAL_PATTERN ip1" and "\<not> re_search LINK_LOCAL_PATTERN ip2"
    and "\<forall>k \<in> {next_sock w, next_sock w + 1, next_sock w + 2}.
             \<not> socket_fails (net env k) \<and> \<not> bind_fails (net env k)
             \<and> \<not> sendto_fails (net env k) \<and> recvfrom (net env k) 0 = Timeout"
    and "\<not> socket_fails (net env (next_sock w + 3))"
    and "\<not> bind_fails (net env (next_sock w + 3))"
    and "\<not> sendto_fails (net env (next_sock w + 3))"
    and "ds \<noteq> []"
    and "\<forall>j<length ds. recvfrom (net env (next_sock w + 3)) j
            = Datagram (fst (ds ! j)) (snd (ds ! j))"
    and "recvfrom (net env (next_sock w + 3)) (length ds) = Timeout"
    and "ssdp_request SSDP_ST_1 SSDP_MX = Inr r1"
    and "ssdp_request SSDP_ST_2 SSDP_MX = Inr r2"
    and "ssdp_request SSDP_ST_3 SSDP_MX = Inr r3"
  shows "ip_loop env (ip1 # ip2 # ips) w [] =
     Some (Inr ds,
           w\<lparr>open_socks := open_socks w
                 - {next_sock w, next_sock w + 1, next_sock w + 2, next_sock w + 3},
              next_sock := next_sock w + 4,
              sent := sent w @ [(ip1, r1), (ip1, r2), (ip1, r3), (ip2, r1)]\<rparr>)"
proof -
  let ?w3 = "w\<lparr>open_socks := open_socks w - {next_sock w, next_sock w + 1, next_sock w + 2},
              next_sock := next_sock w + 3,
              sent := sent w @ [(ip1, r1), (ip1, r2), (ip1, r3)]\<rparr>"
  let ?w4 = "?w3\<lparr>open_socks := open_socks ?w3 - {next_sock ?w3},
                  next_sock := Suc (next_sock ?w3), sent := sent ?w3 @ [(ip2, r1)]\<rparr>"
  have first: "st_loop env ip1 SSDP_ST_LIST w [] = Some (Inr [], ?w3)"
    using assms(3,10,11,12) by (rule st_loop_silent)
  have second: "st_loop env ip2 SSDP_ST_LIST ?w3 [] = Some (Inr ds, ?w4)"
    using assms by (intro st_loop_first_answers) simp_all
  have "ip_loop env (ip1 # ip2 # ips) w [] = Some (Inr ds, ?w4)"
    using first second assms(1,2,7) by simp
  moreover have "?w4 = w\<lparr>open_socks := open_socks w
                 - {next_sock w, next_sock w + 1, next_sock w + 2, next_sock w + 3},
              next_sock := next_sock w + 4,
              sent := sent w @ [(ip1, r1), (ip1, r2), (ip1, r3), (ip2, r1)]\<rparr>"
    by (rule world.equality) auto
  ultimately show ?thesis by simp
qed

text \<open>
  C5. In every run of the Orchestrator that ends, each socket but the last one created
  received no response, so no broadcast follows one that was answered. In particular, when
  the first address gets no response to any of the three targets and the second address
  gets the responses \<open>ds\<close> to its first target, the run sends exactly four requests
  (three from the first address, one from the second), tries no other target or address,
  and extracts its URLs from \<open>ds\<close>.
\<close>

theorem C5_no_broadcast_after_first_response:
  "(\<forall>r w'. send_ssdp_broadcast env w = Some (r, w') \<longrightarrow>
      (\<forall>k. next_sock w \<le> k \<and> Suc k < next_sock w' \<longrightarrow> recvfrom (net env k) 0 = Timeout))
   \<and> (get_local_ips env = ip1 # ip2 # ips
       \<and> \<not> re_search LINK_LOCAL_PATTERN ip1 \<and> \<not> re_search LINK_LOCAL_PATTERN ip2
       \<and> (\<forall>k \<in> {next_sock w, next_sock w + 1, next_sock w + 2, next_sock w + 3}.
             \<not> socket_fails (net env k) \<and> \<not> bind_fails (net env k)
             \<and> \<not> sendto_fails (net env k))
       \<and> (\<forall>k \<in> {next_sock w, next_sock w + 1, next_sock w + 2}.
             recvfrom (net env k) 0 = Timeout)
       \<and> ds \<noteq> []
       \<and> (\<forall>j<length ds. recvfrom (net env (next_sock w + 3)) j
              = Datagram (fst (ds ! j)) (snd (ds ! j)))
       \<and> recvfrom (net env (next_sock w + 3)) (length ds) = Timeout
      \<longrightarrow> (\<exists>r1 r2 r3.
             ssdp_request SSDP_ST_1 SSDP_MX = Inr r1 \<and> ssdp_request SSDP_ST_2 SSDP_MX = Inr r2
             \<and> ssdp_request SSDP_ST_3 SSDP_MX = Inr r3
             \<and> send_ssdp_broadcast env w =
                 Some (collect_urls ds {},
                       w\<lparr>open_socks := open_socks w
                             - {next_sock w, next_sock w + 1, next_sock w + 2, next_sock w + 3},
                          next_sock := next_sock w + 4,
                          sent := sent w @ [(ip1, r1), (ip1, r2), (ip1, r3), (ip2, r1)]\<rparr>)))"
proof (intro conjI allI impI)
  fix r w' k
  assume run: "send_ssdp_broadcast env w = Some (r, w')"
    and k: "next_sock w \<le> k \<and> Suc k < next_sock w'"
  from run obtain r0 where "ip_loop env (get_local_ips env) w [] = Some (r0, w')"
    by (auto simp: send_ssdp_broadcast_def split: option.splits sum.splits prod.splits)
  from ip_loop_sockets [OF this] k show "recvfrom (net env k) 0 = Timeout" by blast
next
  assume h: "get_local_ips env = ip1 # ip2 # ips
       \<and> \<not> re_search LINK_LOCAL_PATTERN ip1 \<and> \<not> re_search LINK_LOCAL_PATTERN ip2
       \<and> (\<forall>k \<in> {next_sock w, next_sock w + 1, next_sock w + 2, next_sock w + 3}.
             \<not> socket_fails (net env k) \<and> \<not> bind_fails (net env k)
             \<and> \<not> sendto_fails (net env k))
       \<and> (\<forall>k \<in> {next_sock w, next_sock w + 1, next_sock w + 2}.
             recvfrom (net env k) 0 = Timeout)
       \<and> ds \<noteq> []
       \<and> (\<forall>j<length ds. recvfrom (net env (next_sock w + 3)) j
              = Datagram (fst (ds ! j)) (snd (ds ! j)))
       \<and> recvfrom (net env (next_sock w + 3)) (length ds) = Timeout"
  obtain r1 r2 r3 where r: "ssdp_request SSDP_ST_1 SSDP_MX = Inr r1"
    "ssdp_request SSDP_ST_2 SSDP_MX = Inr r2" "ssdp_request SSDP_ST_3 SSDP_MX = Inr r3"
    using ssdp_request_targets by blast
  have "ip_loop env (ip1 # ip2 # ips) w [] =
     Some (Inr ds,
           w\<lparr>open_socks := open_socks w
                 - {next_sock w, next_sock w + 1, next_sock w + 2, next_sock w + 3},
              next_sock := next_sock w + 4,
              sent := sent w @ [(ip1, r1), (ip1, r2), (ip1, r3), (ip2, r1)]\<rparr>)"
    using h r by (intro ip_loop_second_answers) simp_all
  then have "send_ssdp_broadcast env w =
                 Some (collect_urls ds {},
                       w\<lparr>open_socks := open_socks w
                             - {next_sock w, next_sock w + 1, next_sock w + 2, next_sock w + 3},
                          next_sock := next_sock w + 4,
                          sent := sent w @ [(ip1, r1), (ip1, r2), (ip1, r3), (ip2, r1)]\<rparr>)"
    using h by (simp add: send_ssdp_broadcast_def)
  with r show "\<exists>r1 r2 r3.
             ssdp_request SSDP_ST_1 SSDP_MX = Inr r1 \<and> ssdp_request SSDP_ST_2 SSDP_MX = Inr r2
             \<and> ssdp_request SSDP_ST_3 SSDP_MX = Inr r3
             \<and> send_ssdp_broadcast env w =
                 Some (collect_urls ds {},
                       w\<lparr>open_socks := open_socks w
                             - {next_sock w, next_sock w + 1, next_sock w + 2, next_sock w + 3},
                          next_sock := next_sock w + 4,
                          sent := sent w @ [(ip1, r1), (ip1, r2), (ip1, r3), (ip2, r1)]\<rparr>)"
    by blast
qed

text \<open>
  Three adapters; the sockets of the first address receive nothing, the first socket of
  the second address receives one response: four requests are sent and the third address
  is never used.
\<close>

theorem C5_no_broadcast_after_first_response_witness:
  "\<exists>r1 r2 r3.
      ssdp_request SSDP_ST_1 SSDP_MX = Inr r1 \<and> ssdp_request SSDP_ST_2 SSDP_MX = Inr r2
      \<and> ssdp_request SSDP_ST_3 SSDP_MX = Inr r3
      \<and> send_ssdp_broadcast (net_env three_adapters fourth_answers) w0 =
          Some (collect_urls [example_response] {},
                \<lparr>open_socks = {}, next_sock = 4,
                 sent = [(str_of ''10.0.0.7'', r1), (str_of ''10.0.0.7'', r2),
                         (str_of ''10.0.0.7'', r3), (str_of ''192.168.1.10'', r1)]\<rparr>)"
proof -
  have ips: "get_local_ips (net_env three_adapters fourth_answers) =
      str_of ''10.0.0.7'' # str_of ''192.168.1.10'' # [str_of ''172.16.0.4'']"
    by (simp add: get_local_ips_def net_env_def three_adapters_def)
  have keep: "\<not> re_search LINK_LOCAL_PATTERN (str_of ''10.0.0.7'')"
    "\<not> re_search LINK_LOCAL_PATTERN (str_of ''192.168.1.10'')"
    by (simp_all add: LINK_LOCAL_PATTERN_def str_of_def)
  show ?thesis
    using C5_no_broadcast_after_first_response
      [of "net_env three_adapters fourth_answers" w0 "str_of ''10.0.0.7''"
          "str_of ''192.168.1.10''" "[str_of ''172.16.0.4'']" "[example_response]"]
      ips keep
    by (simp add: net_env_def fourth_answers_def answered_def quiet_def w0_def)
qed

subsection \<open>Facts about the loop over the URLs\<close>

lemma evaluate_PDict:
  assumes "evaluate_scpd_xml env url = Inr (PDict d)"
  shows "\<exists>m h p mo s f. m \<in> set SUPPORTED_MANUFACTURERS
     \<and> d = [(str_of ''manufacturer'', Some m), (str_of ''host'', h),
            (str_of ''presentationURL'', p), (str_of ''modelName'', mo),
            (str_of ''serialNumber'', s), (str_of ''friendlyName'', f)]"
proof -
  from assms obtain res :: response where "scpd_body env (res_text res) = Inr (PDict d)"
    by (auto simp: evaluate_scpd_xml_def split: sum.splits if_splits)
  from scpd_body_PDict [OF this] show ?thesis by blast
qed

lemma evaluate_raises:
  assumes "evaluate_scpd_xml env url = Inl e"
  shows "requests_get env url = Inl e"
  using assms
  by (auto simp: evaluate_scpd_xml_def split: sum.splits if_splits dest: scpd_body_error)

text \<open>What one URL adds to the list \<open>receivers\<close>.\<close>

lemma receivers_loop_append:
  assumes "\<forall>u \<in> set urls. \<forall>e. requests_get env u = Inl e \<longrightarrow> is_RequestException e"
  shows "receivers_loop env urls receivers =
     Inr (receivers @
          concat (map (\<lambda>u. case evaluate_scpd_xml env u of
                               Inr (PDict d) \<Rightarrow> [PDict d] | _ \<Rightarrow> []) urls))"
  using assms
proof (induction urls arbitrary: receivers)
  case Nil
  then show ?case by simp
next
  case (Cons url urls)
  then have rest: "\<And>acc. receivers_loop env urls acc =
     Inr (acc @ concat (map (\<lambda>u. case evaluate_scpd_xml env u of
                               Inr (PDict d) \<Rightarrow> [PDict d] | _ \<Rightarrow> []) urls))"
    by simp
  show ?case
  proof (cases "evaluate_scpd_xml env url")
    case (Inl e)
    then have "requests_get env url = Inl e" by (rule evaluate_raises)
    with Cons.prems have "is_RequestException e" by simp
    with Inl rest show ?thesis by simp
  next
    case (Inr r)
    show ?thesis
    proof (cases r)
      case PFalse
      with Inr rest show ?thesis by simp
    next
      case (PDict d)
      with Inr evaluate_PDict have "d \<noteq> []" by blast
      with Inr PDict rest show ?thesis by simp
    qed
  qed
qed

lemma receivers_loop_records:
  assumes "receivers_loop env urls receivers = Inr rs"
    and "r \<in> set rs"
  shows "r \<in> set receivers \<or> (\<exists>u \<in> set urls. evaluate_scpd_xml env u = Inr r \<and> truthy r)"
  using assms
proof (induction urls arbitrary: receivers)
  case Nil
  then show ?case by simp
next
  case (Cons url urls)
  show ?case
  proof (cases "evaluate_scpd_xml env url")
    case (Inl e)
    with Cons.prems have "receivers_loop env urls receivers = Inr rs"
      by (simp split: if_splits)
    from Cons.IH [OF this Cons.prems(2)] show ?thesis by auto
  next
    case (Inr x)
    show ?thesis
    proof (cases "truthy x")
      case True
      with Inr Cons.prems have "receivers_loop env urls (receivers @ [x]) = Inr rs" by simp
      from Cons.IH [OF this Cons.prems(2)] Inr True show ?thesis by auto
    next
      case False
      with Inr Cons.prems have "receivers_loop env urls receivers = Inr rs" by simp
      from Cons.IH [OF this Cons.prems(2)] show ?thesis by auto
    qed
  qed
qed

subsection \<open>Facts about the LOCATION pattern\<close>

lemma occurs_here: "occurs p (p @ b)"
proof (cases "p @ b")
  case Nil
  then show ?thesis by simp
next
  case (Cons x xs)
  have "take (length p) (p @ b) = p" by simp
  then have "take (length p) (x # xs) = p" by (simp only: Cons)
  then have "occurs p (x # xs)" by simp
  then show ?thesis by (simp only: Cons)
qed

lemma occurs_append: "occurs p (a @ p @ b)"
  by (induction a) (simp_all add: occurs_here)

lemma lookbehind_append:
  assumes "lookbehind seen"
  shows "\<exists>a w. seen = a @ str_of ''LOCATION:'' @ [w] \<and> is_space w"
proof -
  let ?n = "length seen - 10"
  let ?t = "drop ?n seen"
  from assms have len: "10 \<le> length seen" and loc: "take 9 ?t = str_of ''LOCATION:''"
    and sp: "is_space (last seen)"
    by (simp_all add: lookbehind_def)
  have tl: "length ?t = 10" using len by simp
  then have "?t \<noteq> []" by auto
  then have "?t = butlast ?t @ [last ?t]" by (rule append_butlast_last_id [symmetric])
  moreover have "butlast ?t = take 9 ?t" using tl by (simp add: butlast_conv_take)
  moreover have "last ?t = last seen" using len by simp
  ultimately have "?t = str_of ''LOCATION:'' @ [last seen]" using loc by simp
  then have "seen = take ?n seen @ str_of ''LOCATION:'' @ [last seen]"
    by (metis append_take_drop_id)
  with sp show ?thesis by blast
qed

lemma lookbehind_occurs:
  assumes "lookbehind seen"
  shows "occurs (str_of ''LOCATION:'') seen"
proof -
  from lookbehind_append [OF assms] obtain a w
    where "seen = a @ str_of ''LOCATION:'' @ [w]" by blast
  then show ?thesis by (simp only: occurs_append)
qed

lemma lookbehind_after: "is_space w \<Longrightarrow> lookbehind (a @ str_of ''LOCATION:'' @ [w])"
  by (simp add: lookbehind_def str_of_def)

lemma occurs_prefix: "occurs p (take j s) \<Longrightarrow> p \<noteq> [] \<Longrightarrow> occurs p s"
proof (induction s arbitrary: j)
  case Nil
  then show ?case by simp
next
  case (Cons x xs)
  show ?case
  proof (cases j)
    case 0
    with Cons.prems show ?thesis by simp
  next
    case (Suc i)
    with Cons.prems(1) have "take (length p) (x # take i xs) = p \<or> occurs p (take i xs)"
      by simp
    then show ?thesis
    proof
      assume h: "take (length p) (x # take i xs) = p"
      have "length (take (length p) (x # take i xs)) \<le> Suc i" by simp
      then have le: "length p \<le> Suc i" by (simp only: h)
      have "take (length p) (x # xs) = take (length p) (x # take i xs)"
        using le by (cases "length p") (simp_all add: min_def)
      with h show ?thesis by simp
    next
      assume "occurs p (take i xs)"
      from Cons.IH [OF this Cons.prems(2)] show ?thesis by simp
    qed
  qed
qed

text \<open>The search passes every position at which the lookbehind fails.\<close>

lemma search_location_skip:
  assumes "\<forall>j<n. \<not> lookbehind (seen @ take j rest)" and "n \<le> length rest"
  shows "search_location seen rest = search_location (seen @ take n rest) (drop n rest)"
  using assms
proof (induction n arbitrary: seen rest)
  case 0
  then show ?case by simp
next
  case (Suc n)
  then obtain c cs where rest: "rest = c # cs" by (cases rest) auto
  from Suc.prems(1) have "\<not> lookbehind (seen @ take 0 rest)" by blast
  then have first: "search_location seen rest = search_location (seen @ [c]) cs"
    using rest by simp
  have "\<forall>j<n. \<not> lookbehind ((seen @ [c]) @ take j cs)"
  proof (intro allI impI)
    fix j assume "j < n"
    then have "\<not> lookbehind (seen @ take (Suc j) rest)" using Suc.prems(1) by simp
    then show "\<not> lookbehind ((seen @ [c]) @ take j cs)" using rest by simp
  qed
  moreover have "n \<le> length cs" using Suc.prems(2) rest by simp
  ultimately have "search_location (seen @ [c]) cs =
      search_location ((seen @ [c]) @ take n cs) (drop n cs)"
    by (rule Suc.IH)
  with first rest show ?case by simp
qed

lemma search_location_None:
  assumes "\<forall>j<length rest. \<not> lookbehind (seen @ take j rest)"
  shows "search_location seen rest = None"
proof -
  have "search_location seen rest =
      search_location (seen @ take (length rest) rest) (drop (length rest) rest)"
    using assms by (intro search_location_skip) simp_all
  then show ?thesis by simp
qed

lemma lazy_until_cr_stops:
  assumes "\<forall>c \<in> set u. c \<noteq> 13 \<and> c \<noteq> 10"
  shows "lazy_until_cr acc (u @ 13 # post) = Some (acc @ u)"
  using assms by (induction u arbitrary: acc) simp_all

lemma match_at_stops:
  assumes "u \<noteq> []" and "\<forall>c \<in> set u. c \<noteq> 13 \<and> c \<noteq> 10"
  shows "match_at (u @ 13 # post) = Some u"
proof -
  from assms(1) obtain c cs where u: "u = c # cs" by (cases u) auto
  with assms(2) have "lazy_until_cr [c] (cs @ 13 # post) = Some ([c] @ cs)"
    by (intro lazy_until_cr_stops) simp
  with u assms(2) show ?thesis by simp
qed

lemma colon_only_last:
  assumes "k < 8"
  shows "str_of ''LOCATION:'' ! k \<noteq> 58"
proof -
  let ?P = "take 8 (str_of ''LOCATION:'')"
  have notin: "58 \<notin> set ?P" by (simp add: str_of_def)
  have len: "length ?P = 8" by (simp add: str_of_def)
  have "?P ! k \<in> set ?P" using assms len by (intro nth_mem) simp
  moreover have "?P ! k = str_of ''LOCATION:'' ! k" using assms by simp
  ultimately show ?thesis using notin by metis
qed

text \<open>
  Before the end of the first \<^verbatim>\<open>LOCATION:\<close> and its whitespace character the lookbehind
  fails everywhere, since \<^verbatim>\<open>LOCATION:\<close> cannot overlap itself.
\<close>

lemma no_lookbehind_before:
  assumes "\<not> occurs (str_of ''LOCATION:'') pre"
    and "j < length pre + 10"
  shows "\<not> lookbehind (take j (pre @ str_of ''LOCATION:'' @ w # rest))"
proof
  let ?L = "str_of ''LOCATION:''"
  assume "lookbehind (take j (pre @ ?L @ w # rest))"
  from lookbehind_append [OF this] obtain a w'
    where a: "take j (pre @ ?L @ w # rest) = a @ ?L @ [w']" by blast
  have lenL: "length ?L = 9" by (simp add: str_of_def)
  have "j \<le> length (pre @ ?L)" using assms(2) lenL by simp
  then have "take j ((pre @ ?L) @ w # rest) = take j (pre @ ?L)" by simp
  then have tk: "take j (pre @ ?L @ w # rest) = take j (pre @ ?L)" by simp
  define t where "t = drop j (pre @ ?L)"
  have e1: "take j (pre @ ?L) = a @ ?L @ [w']" using a tk by simp
  have e2: "pre @ ?L = take j (pre @ ?L) @ t"
    unfolding t_def by (rule append_take_drop_id [symmetric])
  have "pre @ ?L = (a @ ?L) @ (w' # t)"
    by (subst e2, subst e1) simp
  then obtain us where
    "pre = (a @ ?L) @ us \<and> us @ ?L = w' # t
     \<or> pre @ us = a @ ?L \<and> ?L = us @ w' # t"
    unfolding append_eq_append_conv2 by blast
  then show False
  proof
    assume "pre = (a @ ?L) @ us \<and> us @ ?L = w' # t"
    then have "pre = a @ ?L @ us" by simp
    then have "occurs ?L pre" by (simp only: occurs_append)
    with assms(1) show False ..
  next
    assume b: "pre @ us = a @ ?L \<and> ?L = us @ w' # t"
    show False
    proof (cases "us = []")
      case True
      with b have "pre = a @ ?L @ []" by simp
      then have "occurs ?L pre" by (simp only: occurs_append)
      with assms(1) show False ..
    next
      case False
      from b have "last (pre @ us) = last (a @ ?L)" by simp
      then have colon: "last us = 58" using False by (simp add: str_of_def)
      from b have L: "?L = us @ w' # t" by simp
      then have "length ?L = length us + Suc (length t)"
        by (metis length_append length_Cons)
      then have short: "length us - 1 < 8" using lenL by simp
      have n1: "last us = us ! (length us - 1)" using False by (rule last_conv_nth)
      have n2: "us ! (length us - 1) = (us @ w' # t) ! (length us - 1)"
        using False by (simp add: nth_append)
      have n3: "(us @ w' # t) ! (length us - 1) = ?L ! (length us - 1)" using L by simp
      from n1 n2 n3 colon have "?L ! (length us - 1) = 58" by simp
      with colon_only_last [OF short] show False by simp
    qed
  qed
qed

lemma search_location_first:
  assumes "\<not> occurs (str_of ''LOCATION:'') pre"
    and "is_space w" and "u \<noteq> []" and "\<forall>c \<in> set u. c \<noteq> 13 \<and> c \<noteq> 10"
  shows "search_location [] (pre @ str_of ''LOCATION:'' @ w # u @ 13 # post) = Some u"
proof -
  let ?L = "str_of ''LOCATION:''"
  let ?T = "pre @ ?L @ w # u @ 13 # post"
  let ?n = "length pre + 10"
  have lenL: "length ?L = 9" by (simp add: str_of_def)
  have "\<forall>j<?n. \<not> lookbehind ([] @ take j ?T)"
    using no_lookbehind_before [OF assms(1)] by simp
  moreover have "?n \<le> length ?T" using lenL by simp
  ultimately have "search_location [] ?T = search_location ([] @ take ?n ?T) (drop ?n ?T)"
    by (rule search_location_skip)
  moreover have "take ?n ?T = pre @ ?L @ [w]" using lenL by simp
  moreover have "drop ?n ?T = u @ 13 # post" using lenL by simp
  ultimately have "search_location [] ?T = search_location (pre @ ?L @ [w]) (u @ 13 # post)"
    by simp
  moreover from assms(3) obtain c cs where u: "u = c # cs" by (cases u) auto
  moreover have "lookbehind (pre @ ?L @ [w])" using assms(2) by (rule lookbehind_after)
  moreover have "match_at (u @ 13 # post) = Some u" using assms(3,4) by (rule match_at_stops)
  ultimately show ?thesis by simp
qed

lemma search_location_absent:
  assumes "\<not> occurs (str_of ''LOCATION:'') entry_text"
  shows "search_location [] entry_text = None"
proof (rule search_location_None, intro allI impI)
  fix j assume "j < length entry_text"
  show "\<not> lookbehind ([] @ take j entry_text)"
  proof
    assume "lookbehind ([] @ take j entry_text)"
    then have "occurs (str_of ''LOCATION:'') (take j entry_text)"
      using lookbehind_occurs by simp
    then have "occurs (str_of ''LOCATION:'') entry_text"
      by (rule occurs_prefix) (simp add: str_of_def)
    with assms show False ..
  qed
qed

subsection \<open>C9: the LOCATION header\<close>

text \<open>
  C9, as stated, fails: the pattern is searched from the left, and in this response, which
  contains the line \<^verbatim>\<open>LOCATION: http://10.0.0.5:60006/desc.xml\<close>, the first place where
  \<^verbatim>\<open>LOCATION:\<close> and a whitespace character occur is inside the header \<^verbatim>\<open>X-LOCATION\<close>
  above it.
\<close>

theorem C9_earlier_header_wins:
  "re_search_location
     (str_of ''HTTP/1.1 200 OK'' @ CRLF @
      str_of ''X-LOCATION: elsewhere'' @ CRLF @
      str_of ''LOCATION: http://10.0.0.5:60006/desc.xml'' @ CRLF @ CRLF)
   = Some (str_of ''elsewhere'')"
proof -
  let ?pre = "str_of ''HTTP/1.1 200 OK'' @ CRLF @ str_of ''X-''"
  let ?post = "10 # str_of ''LOCATION: http://10.0.0.5:60006/desc.xml'' @ CRLF @ CRLF"
  have "search_location [] (?pre @ str_of ''LOCATION:'' @ 32 # str_of ''elsewhere'' @ 13 # ?post)
      = Some (str_of ''elsewhere'')"
    by (rule search_location_first) (simp_all add: str_of_def CRLF_def is_space_def)
  then show ?thesis by (simp add: re_search_location_def str_of_def CRLF_def)
qed

text \<open>
  C9, amended. When the decoded text of a response contains the line
  \<^verbatim>\<open>LOCATION: http://10.0.0.5:60006/desc.xml\<close> ended by CR LF and \<^verbatim>\<open>LOCATION:\<close> does not
  occur before that line, the extraction yields exactly \<^verbatim>\<open>http://10.0.0.5:60006/desc.xml\<close>
  and the Orchestrator adds it to the URL set. The match is case-sensitive: a response in
  whose text \<^verbatim>\<open>LOCATION:\<close> does not occur yields no match and adds nothing.
\<close>

theorem C9_location_of_first_header:
  "(\<not> occurs (str_of ''LOCATION:'') pre \<longrightarrow>
      re_search_location
        (pre @ str_of ''LOCATION: http://10.0.0.5:60006/desc.xml'' @ CRLF @ post)
        = Some (str_of ''http://10.0.0.5:60006/desc.xml'')
      \<and> (utf8_decode payload
            = Inr (pre @ str_of ''LOCATION: http://10.0.0.5:60006/desc.xml'' @ CRLF @ post)
          \<longrightarrow> collect_urls ((payload, sender) # entries) urls
            = collect_urls entries (insert (str_of ''http://10.0.0.5:60006/desc.xml'') urls)))
   \<and> (\<not> occurs (str_of ''LOCATION:'') entry_text \<longrightarrow>
      re_search_location entry_text = None
      \<and> (utf8_decode payload = Inr entry_text
          \<longrightarrow> collect_urls ((payload, sender) # entries) urls = collect_urls entries urls))"
proof (intro conjI impI)
  assume pre: "\<not> occurs (str_of ''LOCATION:'') pre"
  have "search_location []
      (pre @ str_of ''LOCATION:'' @ 32 # str_of ''http://10.0.0.5:60006/desc.xml'' @ 13 # 10 # post)
      = Some (str_of ''http://10.0.0.5:60006/desc.xml'')"
    using pre by (rule search_location_first) (simp_all add: str_of_def is_space_def)
  then show found: "re_search_location
        (pre @ str_of ''LOCATION: http://10.0.0.5:60006/desc.xml'' @ CRLF @ post)
        = Some (str_of ''http://10.0.0.5:60006/desc.xml'')"
    by (simp add: re_search_location_def str_of_def CRLF_def)
  assume "utf8_decode payload
            = Inr (pre @ str_of ''LOCATION: http://10.0.0.5:60006/desc.xml'' @ CRLF @ post)"
  with found show "collect_urls ((payload, sender) # entries) urls
            = collect_urls entries (insert (str_of ''http://10.0.0.5:60006/desc.xml'') urls)"
    by simp
next
  assume "\<not> occurs (str_of ''LOCATION:'') entry_text"
  then show absent: "re_search_location entry_text = None"
    unfolding re_search_location_def by (rule search_location_absent)
  assume "utf8_decode payload = Inr entry_text"
  with absent show "collect_urls ((payload, sender) # entries) urls = collect_urls entries urls"
    by simp
qed

text \<open>
  A response with the header once, after the status line and another header, and a
  response that spells the header \<^verbatim>\<open>Location\<close>.
\<close>

theorem C9_location_of_first_header_witness:
  "re_search_location
     (str_of ''HTTP/1.1 200 OK'' @ CRLF @ str_of ''CACHE-CONTROL: max-age=1800'' @ CRLF @
      str_of ''LOCATION: http://10.0.0.5:60006/desc.xml'' @ CRLF @
      str_of ''ST: upnp:rootdevice'' @ CRLF @ CRLF)
     = Some (str_of ''http://10.0.0.5:60006/desc.xml'')
   \<and> re_search_location
     (str_of ''HTTP/1.1 200 OK'' @ CRLF @
      str_of ''Location: http://10.0.0.5:60006/desc.xml'' @ CRLF @ CRLF)
     = None"
proof -
  let ?pre = "str_of ''HTTP/1.1 200 OK'' @ CRLF @ str_of ''CACHE-CONTROL: max-age=1800'' @ CRLF"
  let ?post = "str_of ''ST: upnp:rootdevice'' @ CRLF @ CRLF"
  let ?other = "str_of ''HTTP/1.1 200 OK'' @ CRLF @
      str_of ''Location: http://10.0.0.5:60006/desc.xml'' @ CRLF @ CRLF"
  have 1: "\<not> occurs (str_of ''LOCATION:'') ?pre"
    by (simp add: str_of_def CRLF_def)
  have 2: "\<not> occurs (str_of ''LOCATION:'') ?other"
    by (simp add: str_of_def CRLF_def)
  show ?thesis
    using C9_location_of_first_header [of ?pre ?post "[]" "([], 0)" "[]" "{}" ?other] 1 2
    by simp
qed

end
